theory Spec2Isabelle
  imports Main
begin

section \<open>Text, errors and the data model\<close>

text \<open>
  A Python \<^verbatim>\<open>str\<close> is a sequence of Unicode code points, so text is a list of code
  points. ASCII literals are written through \<open>u\<close>; Cyrillic text is written as
  code points (U+0410 is 1040, U+0430 is 1072).
\<close>

type_synonym ustr = "nat list"

definition u :: "string \<Rightarrow> ustr" where
  "u s = map of_char s"

datatype error = IndexError | ValueError | FileNotFoundError | SourceError | SinkError

text \<open>
  \<^verbatim>\<open>xs[i]\<close>: positions \<open>0 .. len - 1\<close> are read directly, positions
  \<open>-len .. -1\<close> are read from the end, anything else raises IndexError.
\<close>

definition py_index :: "'a list \<Rightarrow> int \<Rightarrow> error + 'a" where
  "py_index xs i =
     (if 0 \<le> i \<and> i < int (length xs) then Inr (xs ! nat i)
      else if i < 0 \<and> - int (length xs) \<le> i then Inr (xs ! nat (int (length xs) + i))
      else Inl IndexError)"

text \<open>
  A section is the dict built by \<^verbatim>\<open>PDFParser.extract_content_by_toc\<close>, with the keys
  level, title, start_page, end_page, content and type.
\<close>

record section_dict =
  level :: int
  title :: ustr
  start_page :: int
  end_page :: int
  content :: ustr
  stype :: string

section \<open>DatabasePopulator._build_hierarchy\<close>

text \<open>
  The loop \<^verbatim>\<open>for i in range(current_index - 1, -1, -1)\<close>: the counter \<open>k\<close> is the
  number of indices still to visit, the next one visited is \<open>k - 1\<close>. The \<^verbatim>\<open>break\<close>
  sits inside the \<^verbatim>\<open>if\<close>, after the update of \<^verbatim>\<open>current_level\<close>.
\<close>

fun hierarchy_loop :: "section_dict list \<Rightarrow> nat \<Rightarrow> int \<Rightarrow> ustr list \<Rightarrow> ustr list" where
  "hierarchy_loop sections 0 current_level hierarchy = hierarchy"
| "hierarchy_loop sections (Suc i) current_level hierarchy =
     (let s = sections ! i in
      if level s < current_level then
        (let hierarchy' = title s # hierarchy; current_level' = level s in
         if current_level' = 1 then hierarchy'
         else hierarchy_loop sections i current_level' hierarchy')
      else hierarchy_loop sections i current_level hierarchy)"

definition build_hierarchy :: "section_dict list \<Rightarrow> int \<Rightarrow> error + ustr list" where
  "build_hierarchy sections current_index =
     (case py_index sections current_index of
        Inl e \<Rightarrow> Inl e
      | Inr current_section \<Rightarrow>
          Inr (hierarchy_loop sections (nat current_index) (level current_section) []))"

text \<open>
  The resolver as section 4.3 of the specification words it: the sections before
  \<open>index\<close> are visited from the nearest one backwards; a visited section whose level is
  strictly below the running level contributes its title in front of what was found so
  far and becomes the running level; the walk stops when the running level has reached 1
  or the sections are exhausted.
\<close>

fun walk_ancestors :: "section_dict list \<Rightarrow> int \<Rightarrow> ustr list" where
  "walk_ancestors [] currentLevel = []"
| "walk_ancestors (s # earlier) currentLevel =
     (if level s < currentLevel then
        (if level s = 1 then [title s]
         else walk_ancestors earlier (level s) @ [title s])
      else walk_ancestors earlier currentLevel)"

definition resolveAncestors :: "section_dict list \<Rightarrow> nat \<Rightarrow> ustr list" where
  "resolveAncestors sections index =
     walk_ancestors (rev (take index sections)) (level (sections ! index))"

text \<open>
  The same walk when "stops once the running level reaches 1" is read as a test made
  before every visit, so that a section of level 1 is not given any ancestor at all.
\<close>

fun walk_to_root :: "section_dict list \<Rightarrow> int \<Rightarrow> ustr list" where
  "walk_to_root [] currentLevel = []"
| "walk_to_root (s # earlier) currentLevel =
     (if currentLevel = 1 then []
      else if level s < currentLevel then walk_to_root earlier (level s) @ [title s]
      else walk_to_root earlier currentLevel)"

definition mk_section :: "int \<Rightarrow> ustr \<Rightarrow> section_dict" where
  "mk_section l t =
     \<lparr>level = l, title = t, start_page = 1, end_page = 1, content = [], stype = ''unknown''\<rparr>"

text \<open>The three nested sections of the example: "Lekciya 1" (in Cyrillic), "1.1", "1.1.1".\<close>

definition lecture1 :: ustr where
  "lecture1 = [1051, 1077, 1082, 1094, 1080, 1103, 32, 49]"

definition nested3 :: "section_dict list" where
  "nested3 = [mk_section 1 lecture1, mk_section 2 (u ''1.1''), mk_section 3 (u ''1.1.1'')]"

section \<open>Text primitives of the Python runtime\<close>

text \<open>
  \<^verbatim>\<open>str.isspace\<close>, which is also the class \<^verbatim>\<open>\s\<close> of \<^verbatim>\<open>re\<close> on \<^verbatim>\<open>str\<close> patterns: the
  complete list of the Unicode database.
\<close>

definition is_space :: "nat \<Rightarrow> bool" where
  "is_space c \<longleftrightarrow>
     (9 \<le> c \<and> c \<le> 13) \<or> (28 \<le> c \<and> c \<le> 32) \<or> c = 133 \<or> c = 160 \<or> c = 5760
     \<or> (8192 \<le> c \<and> c \<le> 8202) \<or> c = 8232 \<or> c = 8233 \<or> c = 8239 \<or> c = 8287
     \<or> c = 12288"

text \<open>
  The decimal digits of the Unicode database (category Nd, version 14.0 as in CPython
  3.11): the class \<^verbatim>\<open>\d\<close> of \<^verbatim>\<open>re\<close> on \<^verbatim>\<open>str\<close> patterns and the digits that \<^verbatim>\<open>int\<close>
  accepts. After the ASCII digits the next one is U+0660, and the digits come in runs
  that start with a zero and count upwards, so the value of a digit is its distance from
  the start of its run modulo ten (the one run longer than ten, U+1D7CE to U+1D7FF,
  repeats 0 to 9 five times).
\<close>

definition decimal_runs :: "(nat \<times> nat) list" where
  "decimal_runs =
     [(1632, 1641), (1776, 1785), (1984, 1993), (2406, 2415), (2534, 2543), (2662, 2671),
      (2790, 2799), (2918, 2927), (3046, 3055), (3174, 3183), (3302, 3311), (3430, 3439),
      (3558, 3567), (3664, 3673), (3792, 3801), (3872, 3881), (4160, 4169), (4240, 4249),
      (6112, 6121), (6160, 6169), (6470, 6479), (6608, 6617), (6784, 6793), (6800, 6809),
      (6992, 7001), (7088, 7097), (7232, 7241), (7248, 7257), (42528, 42537),
      (43216, 43225), (43264, 43273), (43472, 43481), (43504, 43513), (43600, 43609),
      (44016, 44025), (65296, 65305), (66720, 66729), (68912, 68921), (69734, 69743),
      (69872, 69881), (69942, 69951), (70096, 70105), (70384, 70393), (70736, 70745),
      (70864, 70873), (71248, 71257), (71360, 71369), (71472, 71481), (71904, 71913),
      (72016, 72025), (72784, 72793), (73040, 73049), (73120, 73129), (92768, 92777),
      (92864, 92873), (93008, 93017), (120782, 120831), (123200, 123209), (123632, 123641),
      (125264, 125273), (130032, 130041)]"

definition is_digit :: "nat \<Rightarrow> bool" where
  "is_digit c \<longleftrightarrow>
     (if c < 1632 then 48 \<le> c \<and> c \<le> 57
      else list_ex (\<lambda>(zero, nine). zero \<le> c \<and> c \<le> nine) decimal_runs)"

definition digit_value :: "nat \<Rightarrow> nat" where
  "digit_value c =
     (if c < 1632 then c - 48
      else (case find (\<lambda>(zero, nine). zero \<le> c \<and> c \<le> nine) decimal_runs of
              None \<Rightarrow> 0
            | Some (zero, nine) \<Rightarrow> (c - zero) mod 10))"

text \<open>
  The word characters, the class \<^verbatim>\<open>\w\<close> of \<^verbatim>\<open>re\<close> on \<^verbatim>\<open>str\<close> patterns: the characters
  for which \<^verbatim>\<open>str.isalnum\<close> holds, and the underscore. The table is again that of the
  Unicode database in version 14.0; it is written out for Basic Latin, for the
  characters up to the Cyrillic block, for the Cyrillic blocks up to U+052F, and as a
  list of runs for everything after them.
\<close>

definition word_runs :: "(nat \<times> nat) list" where
  "word_runs =
     [(1329, 1366), (1369, 1369), (1376, 1416), (1488, 1514), (1519, 1522), (1568, 1610),
      (1632, 1641), (1646, 1647), (1649, 1747), (1749, 1749), (1765, 1766), (1774, 1788),
      (1791, 1791), (1808, 1808), (1810, 1839), (1869, 1957), (1969, 1969), (1984, 2026),
      (2036, 2037), (2042, 2042), (2048, 2069), (2074, 2074), (2084, 2084), (2088, 2088),
      (2112, 2136), (2144, 2154), (2160, 2183), (2185, 2190), (2208, 2249), (2308, 2361),
      (2365, 2365), (2384, 2384), (2392, 2401), (2406, 2415), (2417, 2432), (2437, 2444),
      (2447, 2448), (2451, 2472), (2474, 2480), (2482, 2482), (2486, 2489), (2493, 2493),
      (2510, 2510), (2524, 2525), (2527, 2529), (2534, 2545), (2548, 2553), (2556, 2556),
      (2565, 2570), (2575, 2576), (2579, 2600), (2602, 2608), (2610, 2611), (2613, 2614),
      (2616, 2617), (2649, 2652), (2654, 2654), (2662, 2671), (2674, 2676), (2693, 2701),
      (2703, 2705), (2707, 2728), (2730, 2736), (2738, 2739), (2741, 2745), (2749, 2749),
      (2768, 2768), (2784, 2785), (2790, 2799), (2809, 2809), (2821, 2828), (2831, 2832),
      (2835, 2856), (2858, 2864), (2866, 2867), (2869, 2873), (2877, 2877), (2908, 2909),
      (2911, 2913), (2918, 2927), (2929, 2935), (2947, 2947), (2949, 2954), (2958, 2960),
      (2962, 2965), (2969, 2970), (2972, 2972), (2974, 2975), (2979, 2980), (2984, 2986),
      (2990, 3001), (3024, 3024), (3046, 3058), (3077, 3084), (3086, 3088), (3090, 3112),
      (3114, 3129), (3133, 3133), (3160, 3162), (3165, 3165), (3168, 3169), (3174, 3183),
      (3192, 3198), (3200, 3200), (3205, 3212), (3214, 3216), (3218, 3240), (3242, 3251),
      (3253, 3257), (3261, 3261), (3293, 3294), (3296, 3297), (3302, 3311), (3313, 3314),
      (3332, 3340), (3342, 3344), (3346, 3386), (3389, 3389), (3406, 3406), (3412, 3414),
      (3416, 3425), (3430, 3448), (3450, 3455), (3461, 3478), (3482, 3505), (3507, 3515),
      (3517, 3517), (3520, 3526), (3558, 3567), (3585, 3632), (3634, 3635), (3648, 3654),
      (3664, 3673), (3713, 3714), (3716, 3716), (3718, 3722), (3724, 3747), (3749, 3749),
      (3751, 3760), (3762, 3763), (3773, 3773), (3776, 3780), (3782, 3782), (3792, 3801),
      (3804, 3807), (3840, 3840), (3872, 3891), (3904, 3911), (3913, 3948), (3976, 3980),
      (4096, 4138), (4159, 4169), (4176, 4181), (4186, 4189), (4193, 4193), (4197, 4198),
      (4206, 4208), (4213, 4225), (4238, 4238), (4240, 4249), (4256, 4293), (4295, 4295),
      (4301, 4301), (4304, 4346), (4348, 4680), (4682, 4685), (4688, 4694), (4696, 4696),
      (4698, 4701), (4704, 4744), (4746, 4749), (4752, 4784), (4786, 4789), (4792, 4798),
      (4800, 4800), (4802, 4805), (4808, 4822), (4824, 4880), (4882, 4885), (4888, 4954),
      (4969, 4988), (4992, 5007), (5024, 5109), (5112, 5117), (5121, 5740), (5743, 5759),
      (5761, 5786), (5792, 5866), (5870, 5880), (5888, 5905), (5919, 5937), (5952, 5969),
      (5984, 5996), (5998, 6000), (6016, 6067), (6103, 6103), (6108, 6108), (6112, 6121),
      (6128, 6137), (6160, 6169), (6176, 6264), (6272, 6276), (6279, 6312), (6314, 6314),
      (6320, 6389), (6400, 6430), (6470, 6509), (6512, 6516), (6528, 6571), (6576, 6601),
      (6608, 6618), (6656, 6678), (6688, 6740), (6784, 6793), (6800, 6809), (6823, 6823),
      (6917, 6963), (6981, 6988), (6992, 7001), (7043, 7072), (7086, 7141), (7168, 7203),
      (7232, 7241), (7245, 7293), (7296, 7304), (7312, 7354), (7357, 7359), (7401, 7404),
      (7406, 7411), (7413, 7414), (7418, 7418), (7424, 7615), (7680, 7957), (7960, 7965),
      (7968, 8005), (8008, 8013), (8016, 8023), (8025, 8025), (8027, 8027), (8029, 8029),
      (8031, 8061), (8064, 8116), (8118, 8124), (8126, 8126), (8130, 8132), (8134, 8140),
      (8144, 8147), (8150, 8155), (8160, 8172), (8178, 8180), (8182, 8188), (8304, 8305),
      (8308, 8313), (8319, 8329), (8336, 8348), (8450, 8450), (8455, 8455), (8458, 8467),
      (8469, 8469), (8473, 8477), (8484, 8484), (8486, 8486), (8488, 8488), (8490, 8493),
      (8495, 8505), (8508, 8511), (8517, 8521), (8526, 8526), (8528, 8585), (9312, 9371),
      (9450, 9471), (10102, 10131), (11264, 11492), (11499, 11502), (11506, 11507),
      (11517, 11517), (11520, 11557), (11559, 11559), (11565, 11565), (11568, 11623),
      (11631, 11631), (11648, 11670), (11680, 11686), (11688, 11694), (11696, 11702),
      (11704, 11710), (11712, 11718), (11720, 11726), (11728, 11734), (11736, 11742),
      (11823, 11823), (12293, 12295), (12321, 12329), (12337, 12341), (12344, 12348),
      (12353, 12438), (12445, 12447), (12449, 12538), (12540, 12543), (12549, 12591),
      (12593, 12686), (12690, 12693), (12704, 12735), (12784, 12799), (12832, 12841),
      (12872, 12879), (12881, 12895), (12928, 12937), (12977, 12991), (13312, 19903),
      (19968, 42124), (42192, 42237), (42240, 42508), (42512, 42539), (42560, 42606),
      (42623, 42653), (42656, 42735), (42775, 42783), (42786, 42888), (42891, 42954),
      (42960, 42961), (42963, 42963), (42965, 42969), (42994, 43009), (43011, 43013),
      (43015, 43018), (43020, 43042), (43056, 43061), (43072, 43123), (43138, 43187),
      (43216, 43225), (43250, 43255), (43259, 43259), (43261, 43262), (43264, 43301),
      (43312, 43334), (43360, 43388), (43396, 43442), (43471, 43481), (43488, 43492),
      (43494, 43518), (43520, 43560), (43584, 43586), (43588, 43595), (43600, 43609),
      (43616, 43638), (43642, 43642), (43646, 43695), (43697, 43697), (43701, 43702),
      (43705, 43709), (43712, 43712), (43714, 43714), (43739, 43741), (43744, 43754),
      (43762, 43764), (43777, 43782), (43785, 43790), (43793, 43798), (43808, 43814),
      (43816, 43822), (43824, 43866), (43868, 43881), (43888, 44002), (44016, 44025),
      (44032, 55203), (55216, 55238), (55243, 55291), (63744, 64109), (64112, 64217),
      (64256, 64262), (64275, 64279), (64285, 64285), (64287, 64296), (64298, 64310),
      (64312, 64316), (64318, 64318), (64320, 64321), (64323, 64324), (64326, 64433),
      (64467, 64829), (64848, 64911), (64914, 64967), (65008, 65019), (65136, 65140),
      (65142, 65276), (65296, 65305), (65313, 65338), (65345, 65370), (65382, 65470),
      (65474, 65479), (65482, 65487), (65490, 65495), (65498, 65500), (65536, 65547),
      (65549, 65574), (65576, 65594), (65596, 65597), (65599, 65613), (65616, 65629),
      (65664, 65786), (65799, 65843), (65856, 65912), (65930, 65931), (66176, 66204),
      (66208, 66256), (66273, 66299), (66304, 66339), (66349, 66378), (66384, 66421),
      (66432, 66461), (66464, 66499), (66504, 66511), (66513, 66517), (66560, 66717),
      (66720, 66729), (66736, 66771), (66776, 66811), (66816, 66855), (66864, 66915),
      (66928, 66938), (66940, 66954), (66956, 66962), (66964, 66965), (66967, 66977),
      (66979, 66993), (66995, 67001), (67003, 67004), (67072, 67382), (67392, 67413),
      (67424, 67431), (67456, 67461), (67463, 67504), (67506, 67514), (67584, 67589),
      (67592, 67592), (67594, 67637), (67639, 67640), (67644, 67644), (67647, 67669),
      (67672, 67702), (67705, 67742), (67751, 67759), (67808, 67826), (67828, 67829),
      (67835, 67867), (67872, 67897), (67968, 68023), (68028, 68047), (68050, 68096),
      (68112, 68115), (68117, 68119), (68121, 68149), (68160, 68168), (68192, 68222),
      (68224, 68255), (68288, 68295), (68297, 68324), (68331, 68335), (68352, 68405),
      (68416, 68437), (68440, 68466), (68472, 68497), (68521, 68527), (68608, 68680),
      (68736, 68786), (68800, 68850), (68858, 68899), (68912, 68921), (69216, 69246),
      (69248, 69289), (69296, 69297), (69376, 69415), (69424, 69445), (69457, 69460),
      (69488, 69505), (69552, 69579), (69600, 69622), (69635, 69687), (69714, 69743),
      (69745, 69746), (69749, 69749), (69763, 69807), (69840, 69864), (69872, 69881),
      (69891, 69926), (69942, 69951), (69956, 69956), (69959, 69959), (69968, 70002),
      (70006, 70006), (70019, 70066), (70081, 70084), (70096, 70106), (70108, 70108),
      (70113, 70132), (70144, 70161), (70163, 70187), (70272, 70278), (70280, 70280),
      (70282, 70285), (70287, 70301), (70303, 70312), (70320, 70366), (70384, 70393),
      (70405, 70412), (70415, 70416), (70419, 70440), (70442, 70448), (70450, 70451),
      (70453, 70457), (70461, 70461), (70480, 70480), (70493, 70497), (70656, 70708),
      (70727, 70730), (70736, 70745), (70751, 70753), (70784, 70831), (70852, 70853),
      (70855, 70855), (70864, 70873), (71040, 71086), (71128, 71131), (71168, 71215),
      (71236, 71236), (71248, 71257), (71296, 71338), (71352, 71352), (71360, 71369),
      (71424, 71450), (71472, 71483), (71488, 71494), (71680, 71723), (71840, 71922),
      (71935, 71942), (71945, 71945), (71948, 71955), (71957, 71958), (71960, 71983),
      (71999, 71999), (72001, 72001), (72016, 72025), (72096, 72103), (72106, 72144),
      (72161, 72161), (72163, 72163), (72192, 72192), (72203, 72242), (72250, 72250),
      (72272, 72272), (72284, 72329), (72349, 72349), (72368, 72440), (72704, 72712),
      (72714, 72750), (72768, 72768), (72784, 72812), (72818, 72847), (72960, 72966),
      (72968, 72969), (72971, 73008), (73030, 73030), (73040, 73049), (73056, 73061),
      (73063, 73064), (73066, 73097), (73112, 73112), (73120, 73129), (73440, 73458),
      (73648, 73648), (73664, 73684), (73728, 74649), (74752, 74862), (74880, 75075),
      (77712, 77808), (77824, 78894), (82944, 83526), (92160, 92728), (92736, 92766),
      (92768, 92777), (92784, 92862), (92864, 92873), (92880, 92909), (92928, 92975),
      (92992, 92995), (93008, 93017), (93019, 93025), (93027, 93047), (93053, 93071),
      (93760, 93846), (93952, 94026), (94032, 94032), (94099, 94111), (94176, 94177),
      (94179, 94179), (94208, 100343), (100352, 101589), (101632, 101640),
      (110576, 110579), (110581, 110587), (110589, 110590), (110592, 110882),
      (110928, 110930), (110948, 110951), (110960, 111355), (113664, 113770),
      (113776, 113788), (113792, 113800), (113808, 113817), (119520, 119539),
      (119648, 119672), (119808, 119892), (119894, 119964), (119966, 119967),
      (119970, 119970), (119973, 119974), (119977, 119980), (119982, 119993),
      (119995, 119995), (119997, 120003), (120005, 120069), (120071, 120074),
      (120077, 120084), (120086, 120092), (120094, 120121), (120123, 120126),
      (120128, 120132), (120134, 120134), (120138, 120144), (120146, 120485),
      (120488, 120512), (120514, 120538), (120540, 120570), (120572, 120596),
      (120598, 120628), (120630, 120654), (120656, 120686), (120688, 120712),
      (120714, 120744), (120746, 120770), (120772, 120779), (120782, 120831),
      (122624, 122654), (123136, 123180), (123191, 123197), (123200, 123209),
      (123214, 123214), (123536, 123565), (123584, 123627), (123632, 123641),
      (124896, 124902), (124904, 124907), (124909, 124910), (124912, 124926),
      (124928, 125124), (125127, 125135), (125184, 125251), (125259, 125259),
      (125264, 125273), (126065, 126123), (126125, 126127), (126129, 126132),
      (126209, 126253), (126255, 126269), (126464, 126467), (126469, 126495),
      (126497, 126498), (126500, 126500), (126503, 126503), (126505, 126514),
      (126516, 126519), (126521, 126521), (126523, 126523), (126530, 126530),
      (126535, 126535), (126537, 126537), (126539, 126539), (126541, 126543),
      (126545, 126546), (126548, 126548), (126551, 126551), (126553, 126553),
      (126555, 126555), (126557, 126557), (126559, 126559), (126561, 126562),
      (126564, 126564), (126567, 126570), (126572, 126578), (126580, 126583),
      (126585, 126588), (126590, 126590), (126592, 126601), (126603, 126619),
      (126625, 126627), (126629, 126633), (126635, 126651), (127232, 127244),
      (130032, 130041), (131072, 173791), (173824, 177976), (177984, 178205),
      (178208, 183969), (183984, 191456), (194560, 195101), (196608, 201546)]"

definition is_word :: "nat \<Rightarrow> bool" where
  "is_word c \<longleftrightarrow>
     (if c < 128 then
        (48 \<le> c \<and> c \<le> 57) \<or> (65 \<le> c \<and> c \<le> 90) \<or> c = 95 \<or> (97 \<le> c \<and> c \<le> 122)
      else if c < 1024 then
        c = 170 \<or> c = 178 \<or> c = 179 \<or> c = 181 \<or> c = 185 \<or> c = 186
        \<or> (188 \<le> c \<and> c \<le> 190) \<or> (192 \<le> c \<and> c \<le> 214) \<or> (216 \<le> c \<and> c \<le> 246)
        \<or> (248 \<le> c \<and> c \<le> 705) \<or> (710 \<le> c \<and> c \<le> 721) \<or> (736 \<le> c \<and> c \<le> 740)
        \<or> c = 748 \<or> c = 750 \<or> (880 \<le> c \<and> c \<le> 884) \<or> c = 886 \<or> c = 887
        \<or> (890 \<le> c \<and> c \<le> 893) \<or> c = 895 \<or> c = 902 \<or> (904 \<le> c \<and> c \<le> 906)
        \<or> c = 908 \<or> (910 \<le> c \<and> c \<le> 929) \<or> (931 \<le> c \<and> c \<le> 1013) \<or> 1015 \<le> c
      else if c < 1328 then c \<le> 1153 \<or> 1162 \<le> c
      else list_ex (\<lambda>(first_c, last_c). first_c \<le> c \<and> c \<le> last_c) word_runs)"

text \<open>
  \<^verbatim>\<open>str.lower\<close> is modelled for the blocks the documents are written in, Basic Latin,
  Latin-1 Supplement and the Cyrillic block up to U+045F; elsewhere \<open>lower_cp\<close> is the
  identity. The statements below about every text or every document are proved without
  any fact about \<open>is_digit\<close> and \<open>is_word\<close>; the tables are used where a pattern is
  evaluated on a given text.
\<close>

definition lower_cp :: "nat \<Rightarrow> nat" where
  "lower_cp c =
     (if (65 \<le> c \<and> c \<le> 90) \<or> (192 \<le> c \<and> c \<le> 214) \<or> (216 \<le> c \<and> c \<le> 222)
         \<or> (1040 \<le> c \<and> c \<le> 1071) then c + 32
      else if 1024 \<le> c \<and> c \<le> 1039 then c + 80
      else c)"

definition lower :: "ustr \<Rightarrow> ustr" where
  "lower s = map lower_cp s"

text \<open>\<^verbatim>\<open>str.strip()\<close> removes the whitespace at both ends.\<close>

definition strip :: "ustr \<Rightarrow> ustr" where
  "strip s = rev (dropWhile is_space (rev (dropWhile is_space s)))"

text \<open>\<^verbatim>\<open>sep.join(parts)\<close>.\<close>

fun join :: "ustr \<Rightarrow> ustr list \<Rightarrow> ustr" where
  "join sep [] = []"
| "join sep [p] = p"
| "join sep (p # q # ps) = p @ sep @ join sep (q # ps)"

text \<open>\<^verbatim>\<open>text.split("\n")\<close>: the pieces between the separators, at least one piece.\<close>

fun split_char :: "nat \<Rightarrow> ustr \<Rightarrow> ustr list" where
  "split_char sep [] = [[]]"
| "split_char sep (x # xs) =
     (if x = sep then [] # split_char sep xs
      else (case split_char sep xs of
              [] \<Rightarrow> [[x]]
            | p # ps \<Rightarrow> (x # p) # ps))"

text \<open>\<^verbatim>\<open>needle in haystack\<close> for strings.\<close>

fun starts_with :: "ustr \<Rightarrow> ustr \<Rightarrow> bool" where
  "starts_with [] s = True"
| "starts_with (p # ps) [] = False"
| "starts_with (p # ps) (x # xs) = (p = x \<and> starts_with ps xs)"

fun contains :: "ustr \<Rightarrow> ustr \<Rightarrow> bool" where
  "contains needle [] = (needle = [])"
| "contains needle (x # xs) = (starts_with needle (x # xs) \<or> contains needle xs)"

text \<open>
  \<^verbatim>\<open>int(s)\<close> for a string of decimal digits, which is what the parser passes to it (a
  capture of \<^verbatim>\<open>\d+\<close>). The number is read in base ten; a string of more than 4300
  digits, leading zeros counted, raises ValueError (the default of
  \<^verbatim>\<open>sys.set_int_max_str_digits\<close>). Signs, underscores and blanks around the digits, which
  \<^verbatim>\<open>int\<close> also reads, do not occur in a capture of \<^verbatim>\<open>\d+\<close>; a string that is not a
  non-empty run of digits is refused here.
\<close>

definition int_of_digits :: "ustr \<Rightarrow> int" where
  "int_of_digits s = foldl (\<lambda>acc c. 10 * acc + int (digit_value c)) 0 s"

definition py_int :: "ustr \<Rightarrow> error + int" where
  "py_int s =
     (if s = [] \<or> \<not> list_all is_digit s then Inl ValueError
      else if 4300 < length s then Inl ValueError
      else Inr (int_of_digits s))"

section \<open>The regular expressions of the \<^verbatim>\<open>re\<close> module\<close>

text \<open>
  The patterns of the program use literals, character classes, greedy and lazy
  repetition, numbered groups, \<^verbatim>\<open>\b\<close> and \<^verbatim>\<open>^\<close>. A position in the subject is the
  character before it (none at the start) and the text from it on. The matcher returns
  every way a pattern matches from a position, in the order in which the backtracking
  matcher of \<^verbatim>\<open>re\<close> tries them: the first element is the match that \<^verbatim>\<open>re\<close> reports.
  A repetition takes another round of its body only when that round consumes text.
\<close>

datatype cset =
    CChar nat
  | CRange nat nat
  | CDigit
  | CSpace
  | CDot
  | CNot cset
  | COr cset cset

fun in_cset :: "cset \<Rightarrow> nat \<Rightarrow> bool" where
  "in_cset (CChar c) x = (x = c)"
| "in_cset (CRange a b) x = (a \<le> x \<and> x \<le> b)"
| "in_cset CDigit x = is_digit x"
| "in_cset CSpace x = is_space x"
| "in_cset CDot x = (x \<noteq> 10)"
| "in_cset (CNot s) x = (\<not> in_cset s x)"
| "in_cset (COr s t) x = (in_cset s x \<or> in_cset t x)"

text \<open>
  With \<^verbatim>\<open>re.IGNORECASE\<close> a literal is compared after lower-casing both sides. The one
  pattern compiled with the flag has, besides literals, only categories and a class of
  uncased characters, which the flag leaves alone.
\<close>

fun atom_matches :: "bool \<Rightarrow> cset \<Rightarrow> nat \<Rightarrow> bool" where
  "atom_matches True (CChar c) x = (lower_cp x = lower_cp c)"
| "atom_matches ic s x = in_cset s x"

datatype regex =
    Eps
  | Atom cset
  | Seq regex regex
  | Star regex
  | Lazy regex
  | Group nat regex
  | WordB
  | Bol

text \<open>\<^verbatim>\<open>r+\<close> is \<^verbatim>\<open>rr*\<close> and \<^verbatim>\<open>r{2,}\<close> is \<^verbatim>\<open>rrr*\<close>, with the same preference for more.\<close>

definition one_or_more :: "regex \<Rightarrow> regex" where
  "one_or_more r = Seq r (Star r)"

definition two_or_more :: "regex \<Rightarrow> regex" where
  "two_or_more r = Seq r (Seq r (Star r))"

fun lits :: "ustr \<Rightarrow> regex" where
  "lits [] = Eps"
| "lits [c] = Atom (CChar c)"
| "lits (c # d # cs) = Seq (Atom (CChar c)) (lits (d # cs))"

fun seqs :: "regex list \<Rightarrow> regex" where
  "seqs [] = Eps"
| "seqs [r] = r"
| "seqs (r # q # rs) = Seq r (seqs (q # rs))"

type_synonym pos = "nat option \<times> ustr"
type_synonym captures = "(nat \<times> ustr) list"
type_synonym mstate = "pos \<times> captures"

definition remaining :: "mstate \<Rightarrow> nat" where
  "remaining st = length (snd (fst st))"

text \<open>\<^verbatim>\<open>\b\<close>: exactly one of the two neighbours is a word character.\<close>

definition at_boundary :: "pos \<Rightarrow> bool" where
  "at_boundary p =
     ((case fst p of None \<Rightarrow> False | Some c \<Rightarrow> is_word c)
      \<noteq> (case snd p of [] \<Rightarrow> False | x # xs \<Rightarrow> is_word x))"

definition consumed :: "mstate \<Rightarrow> mstate \<Rightarrow> ustr" where
  "consumed st st' = take (remaining st - remaining st') (snd (fst st))"

function rmatch :: "bool \<Rightarrow> regex \<Rightarrow> mstate \<Rightarrow> mstate list" where
  "rmatch ic Eps st = [st]"
| "rmatch ic (Atom cs) st =
     (case snd (fst st) of
        [] \<Rightarrow> []
      | x # xs \<Rightarrow> if atom_matches ic cs x then [((Some x, xs), snd st)] else [])"
| "rmatch ic (Seq a b) st = concat (map (rmatch ic b) (rmatch ic a st))"
| "rmatch ic (Star r) st =
     concat (map (rmatch ic (Star r))
               (filter (\<lambda>st'. remaining st' < remaining st) (rmatch ic r st)))
     @ [st]"
| "rmatch ic (Lazy r) st =
     st # concat (map (rmatch ic (Lazy r))
                    (filter (\<lambda>st'. remaining st' < remaining st) (rmatch ic r st)))"
| "rmatch ic (Group n r) st =
     map (\<lambda>st'. (fst st', (n, consumed st st') # snd st')) (rmatch ic r st)"
| "rmatch ic WordB st = (if at_boundary (fst st) then [st] else [])"
| "rmatch ic Bol st = (if fst (fst st) = None then [st] else [])"
  by pat_completeness auto
termination
  by (relation "inv_image (less_than <*lex*> less_than) (\<lambda>(ic, r, st). (size r, remaining st))")
     auto

text \<open>\<^verbatim>\<open>m.group(n)\<close>: the text of the last participation of group \<open>n\<close>.\<close>

definition group :: "mstate \<Rightarrow> nat \<Rightarrow> ustr" where
  "group st n = (case map_of (snd st) n of None \<Rightarrow> [] | Some t \<Rightarrow> t)"

text \<open>\<^verbatim>\<open>re.match(pattern, string)\<close>: the first match at the start of the string, if any.\<close>

definition re_match :: "bool \<Rightarrow> regex \<Rightarrow> ustr \<Rightarrow> mstate option" where
  "re_match ic r s =
     (case rmatch ic r ((None, s), []) of [] \<Rightarrow> None | st # sts \<Rightarrow> Some st)"

declare rmatch.simps [simp del]

text \<open>
  A match never moves backwards: what remains after it is no longer than what remained
  before. The scanning loop below terminates for this reason.
\<close>

lemma rmatch_remaining:
  "st' \<in> set (rmatch ic r st) \<Longrightarrow> remaining st' \<le> remaining st"
proof (induction ic r st arbitrary: st' rule: rmatch.induct)
  case (1 ic st)
  then show ?case by (simp add: rmatch.simps(1))
next
  case (2 ic cs st)
  then show ?case
    by (cases "snd (fst st)") (auto simp: rmatch.simps(2) remaining_def split: if_splits)
next
  case (3 ic a b st)
  from "3.prems" obtain mid where m: "mid \<in> set (rmatch ic a st)"
    and s: "st' \<in> set (rmatch ic b mid)"
    by (auto simp: rmatch.simps(3))
  from "3.IH"(1) [OF m] "3.IH"(2) [OF m s] show ?case by simp
next
  case (4 ic r st)
  from "4.prems" have "st' = st \<or> (\<exists>mid \<in> set (rmatch ic r st).
      remaining mid < remaining st \<and> st' \<in> set (rmatch ic (Star r) mid))"
    by (subst (asm) rmatch.simps(4)) auto
  then show ?case
  proof
    assume "st' = st"
    then show ?thesis by simp
  next
    assume "\<exists>mid \<in> set (rmatch ic r st).
      remaining mid < remaining st \<and> st' \<in> set (rmatch ic (Star r) mid)"
    then obtain mid where m: "mid \<in> set (rmatch ic r st)"
      and l: "remaining mid < remaining st"
      and s: "st' \<in> set (rmatch ic (Star r) mid)" by blast
    from "4.IH"(2) [of mid st'] m l s show ?thesis by simp
  qed
next
  case (5 ic r st)
  from "5.prems" have "st' = st \<or> (\<exists>mid \<in> set (rmatch ic r st).
      remaining mid < remaining st \<and> st' \<in> set (rmatch ic (Lazy r) mid))"
    by (subst (asm) rmatch.simps(5)) auto
  then show ?case
  proof
    assume "st' = st"
    then show ?thesis by simp
  next
    assume "\<exists>mid \<in> set (rmatch ic r st).
      remaining mid < remaining st \<and> st' \<in> set (rmatch ic (Lazy r) mid)"
    then obtain mid where m: "mid \<in> set (rmatch ic r st)"
      and l: "remaining mid < remaining st"
      and s: "st' \<in> set (rmatch ic (Lazy r) mid)" by blast
    from "5.IH"(2) [of mid st'] m l s show ?thesis by simp
  qed
next
  case (6 ic n r st)
  then show ?case by (auto simp: rmatch.simps(6) remaining_def)
next
  case (7 ic st)
  then show ?case by (simp add: rmatch.simps(7) split: if_splits)
next
  case (8 ic st)
  then show ?case by (simp add: rmatch.simps(8) split: if_splits)
qed

lemma scan_candidate:
  assumes "filter P (rmatch ic r (p, [])) = st' # sts"
  shows "remaining st' \<le> length (snd p) \<and> P st'"
proof -
  from assms have "st' \<in> set (filter P (rmatch ic r (p, [])))" by simp
  then have m: "st' \<in> set (rmatch ic r (p, []))" and "P st'" by auto
  from rmatch_remaining [OF m] \<open>P st'\<close> show ?thesis by (simp add: remaining_def)
qed

text \<open>
  The loop shared by \<^verbatim>\<open>re.sub\<close> and \<^verbatim>\<open>re.findall\<close>: from the current position take
  the first match; without one, step over one character. After an empty match the next
  attempt at the same position must consume something (\<open>must_advance\<close>). The whole match
  is recorded as group 0.
\<close>

datatype piece = Skipped nat | Matched mstate

function re_scan :: "bool \<Rightarrow> regex \<Rightarrow> bool \<Rightarrow> pos \<Rightarrow> piece list" where
  "re_scan ic r must_advance p =
     (case filter (\<lambda>st'. if must_advance then remaining st' < length (snd p) else True)
             (rmatch ic (Group 0 r) (p, [])) of
        st' # sts \<Rightarrow> Matched st' # re_scan ic r (remaining st' = length (snd p)) (fst st')
      | [] \<Rightarrow> (case snd p of
                [] \<Rightarrow> []
              | x # xs \<Rightarrow> Skipped x # re_scan ic r False (Some x, xs)))"
  by pat_completeness auto
termination
proof (relation "inv_image (less_than <*lex*> less_than)
         (\<lambda>(ic, r, ma, p). (length (snd p), if ma then 0 else (1::nat)))", goal_cases)
  case 1
  show ?case by auto
next
  case (2 ic r ma p x xs)
  then show ?case by simp
next
  case (3 ic r ma p st' sts)
  from scan_candidate [OF 3]
  have "remaining st' \<le> length (snd p)"
    and "if ma then remaining st' < length (snd p) else True" by simp_all
  then show ?case by (auto simp: remaining_def split: if_splits)
qed

declare re_scan.simps [simp del]

text \<open>\<^verbatim>\<open>re.sub(pattern, repl, string)\<close> with a replacement free of group references.\<close>

fun sub_piece :: "ustr \<Rightarrow> piece \<Rightarrow> ustr" where
  "sub_piece repl (Skipped x) = [x]"
| "sub_piece repl (Matched st) = repl"

definition re_sub :: "bool \<Rightarrow> regex \<Rightarrow> ustr \<Rightarrow> ustr \<Rightarrow> ustr" where
  "re_sub ic r repl s = concat (map (sub_piece repl) (re_scan ic r False (None, s)))"

text \<open>\<^verbatim>\<open>re.findall(pattern, string)\<close> for a pattern with exactly one group: the group's texts.\<close>

fun found_piece :: "piece \<Rightarrow> ustr list" where
  "found_piece (Skipped x) = []"
| "found_piece (Matched st) = [group st 1]"

definition re_findall :: "bool \<Rightarrow> regex \<Rightarrow> ustr \<Rightarrow> ustr list" where
  "re_findall ic r s = concat (map found_piece (re_scan ic r False (None, s)))"

text \<open>
  The positions a pattern can end at from a position, whatever is captured on the
  way, and the relation of a position to a later position of the same text. Both serve
  to compare patterns.
\<close>

definition ends :: "bool \<Rightarrow> regex \<Rightarrow> pos \<Rightarrow> pos set" where
  "ends ic r p = fst ` set (rmatch ic r (p, []))"

definition forward :: "pos \<Rightarrow> pos \<Rightarrow> bool" where
  "forward p q \<longleftrightarrow>
     (\<exists>ys. snd p = ys @ snd q \<and> fst q = (if ys = [] then fst p else Some (last ys)))"

section \<open>PDFParser\<close>

text \<open>
  The opened PyMuPDF document is the external source: \<open>page_count\<close> is
  \<^verbatim>\<open>len(self.doc)\<close>, \<open>page_text i\<close> is \<^verbatim>\<open>self.doc[i].get_text()\<close>, which may raise, and
  \<open>embedded_toc\<close> is \<^verbatim>\<open>self.doc.get_toc()\<close>. PyMuPDF raises IndexError for an index
  from \<open>page_count\<close> on and counts a negative index from the end; the example documents
  below follow it. The parser object holds the document and \<^verbatim>\<open>self.toc\<close>, a list of
  (level, title, page).
\<close>

type_synonym toc_row = "int \<times> ustr \<times> int"

record document =
  page_count :: nat
  page_text :: "int \<Rightarrow> error + ustr"
  embedded_toc :: "toc_row list"

record parser =
  doc :: document
  toc :: "toc_row list"

subsection \<open>\<^verbatim>\<open>_extract_toc_manually\<close>\<close>

definition cyr_Lekciya :: ustr where
  "cyr_Lekciya = [1051, 1077, 1082, 1094, 1080, 1103]"

definition dots_page :: "nat \<Rightarrow> regex list" where
  \<comment> \<open>\<^verbatim>\<open>\s+\.{2,}\s*(\d+)\<close>, the page number being group \<open>n\<close>\<close>
  "dots_page n =
     [one_or_more (Atom CSpace), two_or_more (Atom (CChar 46)), Star (Atom CSpace),
      Group n (one_or_more (Atom CDigit))]"

definition lecture_pattern :: regex where
  \<comment> \<open>\<^verbatim>\<open>^Lekciya\s+(\d+)[\.\s]+(.*?)\s+\.{2,}\s*(\d+)\<close>, the word in Cyrillic\<close>
  "lecture_pattern =
     seqs ([Bol, lits cyr_Lekciya, one_or_more (Atom CSpace), Group 1 (one_or_more (Atom CDigit)),
            one_or_more (Atom (COr (CChar 46) CSpace)), Group 2 (Lazy (Atom CDot))]
           @ dots_page 3)"

definition section_pattern :: regex where
  \<comment> \<open>\<^verbatim>\<open>^(\d+)\.(\d+)[\.\s]+(.*?)\s+\.{2,}\s*(\d+)\<close>\<close>
  "section_pattern =
     seqs ([Bol, Group 1 (one_or_more (Atom CDigit)), Atom (CChar 46), Group 2 (one_or_more (Atom CDigit)),
            one_or_more (Atom (COr (CChar 46) CSpace)), Group 3 (Lazy (Atom CDot))]
           @ dots_page 4)"

definition subsection_pattern :: regex where
  \<comment> \<open>\<^verbatim>\<open>^(\d+)\.(\d+)\.(\d+)[\.\s]+(.*?)\s+\.{2,}\s*(\d+)\<close>\<close>
  "subsection_pattern =
     seqs ([Bol, Group 1 (one_or_more (Atom CDigit)), Atom (CChar 46), Group 2 (one_or_more (Atom CDigit)),
            Atom (CChar 46), Group 3 (one_or_more (Atom CDigit)),
            one_or_more (Atom (COr (CChar 46) CSpace)), Group 4 (Lazy (Atom CDot))]
           @ dots_page 5)"

text \<open>
  The body of \<^verbatim>\<open>for line in lines\<close>: the rows appended to \<^verbatim>\<open>toc\<close> for one line. Each
  pattern is tried only when the ones before it did not match (\<^verbatim>\<open>continue\<close>). The
  page number goes through \<^verbatim>\<open>int\<close>, which may raise.
\<close>

definition toc_line :: "ustr \<Rightarrow> error + toc_row list" where
  "toc_line line =
     (case re_match True lecture_pattern line of
        Some lecture_match \<Rightarrow>
          (case py_int (group lecture_match 3) of
             Inl e \<Rightarrow> Inl e
           | Inr page \<Rightarrow>
               Inr [(1, cyr_Lekciya @ u '' '' @ group lecture_match 1 @ u '': ''
                          @ strip (group lecture_match 2),
                     page)])
      | None \<Rightarrow>
     (case re_match False section_pattern line of
        Some section_match \<Rightarrow>
          (case py_int (group section_match 4) of
             Inl e \<Rightarrow> Inl e
           | Inr page \<Rightarrow>
               Inr [(2, group section_match 1 @ u ''.'' @ group section_match 2 @ u '' ''
                          @ strip (group section_match 3),
                     page)])
      | None \<Rightarrow>
     (case re_match False subsection_pattern line of
        Some subsection_match \<Rightarrow>
          (case py_int (group subsection_match 5) of
             Inl e \<Rightarrow> Inl e
           | Inr page \<Rightarrow>
               Inr [(3, group subsection_match 1 @ u ''.'' @ group subsection_match 2
                          @ u ''.'' @ group subsection_match 3 @ u '' ''
                          @ strip (group subsection_match 4),
                     page)])
      | None \<Rightarrow> Inr [])))"

text \<open>
  The loop over the lines of one page and the loop over the pages; \<open>acc\<close> is the list
  \<^verbatim>\<open>toc\<close> built so far. An exception ends both loops.
\<close>

fun toc_lines :: "ustr list \<Rightarrow> toc_row list \<Rightarrow> error + toc_row list" where
  "toc_lines [] acc = Inr acc"
| "toc_lines (line # rest) acc =
     (case toc_line line of
        Inl e \<Rightarrow> Inl e
      | Inr rows \<Rightarrow> toc_lines rest (acc @ rows))"

fun toc_pages :: "document \<Rightarrow> nat list \<Rightarrow> toc_row list \<Rightarrow> error + toc_row list" where
  "toc_pages d [] acc = Inr acc"
| "toc_pages d (page_num # rest) acc =
     (case page_text d (int page_num) of
        Inl e \<Rightarrow> Inl e
      | Inr text \<Rightarrow>
          (case toc_lines (split_char 10 text) acc of
             Inl e \<Rightarrow> Inl e
           | Inr acc' \<Rightarrow> toc_pages d rest acc'))"

definition extract_toc_manually :: "document \<Rightarrow> error + toc_row list" where
  "extract_toc_manually d = toc_pages d [0 ..< min 10 (page_count d)] []"

subsection \<open>\<^verbatim>\<open>_classify_heading\<close> and \<^verbatim>\<open>extract_toc\<close>\<close>

definition cyr_lekciya :: ustr where
  "cyr_lekciya = [1083, 1077, 1082, 1094, 1080, 1103]"

definition digits_dot_pattern :: regex where
  \<comment> \<open>\<^verbatim>\<open>^\d+\.\<close>\<close>
  "digits_dot_pattern = seqs [Bol, one_or_more (Atom CDigit), Atom (CChar 46)]"

definition classify_heading :: "int \<Rightarrow> ustr \<Rightarrow> string" where
  "classify_heading lvl ttl =
     (let title_lower = lower ttl in
      if contains cyr_lekciya title_lower \<or> lvl = 1 then ''lecture''
      else if lvl = 2 \<or> re_match False digits_dot_pattern ttl \<noteq> None then ''section''
      else if lvl \<ge> 3 then ''subsection''
      else ''unknown'')"

record toc_entry =
  te_level :: int
  te_title :: ustr
  te_page :: int
  te_type :: string

definition structured_row :: "toc_row \<Rightarrow> toc_entry" where
  "structured_row row =
     (case row of (lvl, ttl, page) \<Rightarrow>
        \<lparr>te_level = lvl, te_title = strip ttl, te_page = page,
         te_type = classify_heading lvl ttl\<rparr>)"

definition extract_toc :: "parser \<Rightarrow> error + (toc_entry list \<times> parser)" where
  "extract_toc p =
     (case (if embedded_toc (doc p) \<noteq> [] then Inr (embedded_toc (doc p))
            else extract_toc_manually (doc p)) of
        Inl e \<Rightarrow> Inl e
      | Inr rows \<Rightarrow> Inr (map structured_row rows, p\<lparr>toc := rows\<rparr>))"

subsection \<open>\<^verbatim>\<open>_clean_text\<close> and \<^verbatim>\<open>_extract_text_from_pages\<close>\<close>

definition whitespace_run :: regex where
  \<comment> \<open>\<^verbatim>\<open>\s+\<close>\<close>
  "whitespace_run = one_or_more (Atom CSpace)"

definition page_number_line :: regex where
  \<comment> \<open>\<^verbatim>\<open>\n\s*\d+\s*\n\<close>\<close>
  "page_number_line =
     Seq (Atom (CChar 10))
       (seqs [Star (Atom CSpace), one_or_more (Atom CDigit), Star (Atom CSpace), Atom (CChar 10)])"

definition blank_lines :: regex where
  \<comment> \<open>\<^verbatim>\<open>\n\s*\n\<close>\<close>
  "blank_lines = Seq (Atom (CChar 10)) (seqs [Star (Atom CSpace), Atom (CChar 10)])"

definition clean_text :: "ustr \<Rightarrow> ustr" where
  "clean_text text0 =
     (let text1 = re_sub False whitespace_run [32] text0;
          text2 = re_sub False page_number_line [10] text1;
          text3 = re_sub False blank_lines [10, 10] text2
      in strip text3)"

fun text_parts :: "document \<Rightarrow> int list \<Rightarrow> error + ustr list" where
  "text_parts d [] = Inr []"
| "text_parts d (page_num # rest) =
     (case page_text d page_num of
        Inl e \<Rightarrow> Inl e
      | Inr text \<Rightarrow>
          (case text_parts d rest of
             Inl e \<Rightarrow> Inl e
           | Inr parts \<Rightarrow> Inr (clean_text text # parts)))"

text \<open>\<^verbatim>\<open>range(start_page, min(end_page, len(self.doc)))\<close> is the integer interval below.\<close>

definition extract_text_from_pages :: "document \<Rightarrow> int \<Rightarrow> int \<Rightarrow> error + ustr" where
  "extract_text_from_pages d start_pg end_pg =
     (case text_parts d [start_pg .. min end_pg (int (page_count d)) - 1] of
        Inl e \<Rightarrow> Inl e
      | Inr parts \<Rightarrow> Inr (join [10, 10] parts))"

subsection \<open>\<^verbatim>\<open>extract_content_by_toc\<close>\<close>

text \<open>
  The inner loop \<^verbatim>\<open>for j in range(i + 1, len(self.toc))\<close> with its \<^verbatim>\<open>break\<close>; \<open>None\<close>
  is \<^verbatim>\<open>end_page is None\<close> after the loop.
\<close>

fun scan_end_page :: "toc_row list \<Rightarrow> int \<Rightarrow> nat list \<Rightarrow> int option" where
  "scan_end_page rows lvl [] = None"
| "scan_end_page rows lvl (j # js) =
     (case rows ! j of (next_level, next_title, next_page) \<Rightarrow>
        if next_level \<le> lvl then Some (next_page - 1)
        else scan_end_page rows lvl js)"

definition find_end_page :: "document \<Rightarrow> toc_row list \<Rightarrow> nat \<Rightarrow> int" where
  "find_end_page d rows i =
     (case scan_end_page rows (fst (rows ! i)) [i + 1 ..< length rows] of
        None \<Rightarrow> int (page_count d)
      | Some e \<Rightarrow> e)"

fun sections_loop :: "document \<Rightarrow> toc_row list \<Rightarrow> nat list \<Rightarrow> error + section_dict list" where
  "sections_loop d rows [] = Inr []"
| "sections_loop d rows (i # rest) =
     (case rows ! i of (lvl, ttl, start_pg) \<Rightarrow>
        let end_pg = find_end_page d rows i in
        (case extract_text_from_pages d (start_pg - 1) end_pg of
           Inl e \<Rightarrow> Inl e
         | Inr text \<Rightarrow>
             (case sections_loop d rows rest of
                Inl e \<Rightarrow> Inl e
              | Inr others \<Rightarrow>
                  Inr (\<lparr>level = lvl, title = strip ttl, start_page = start_pg,
                        end_page = end_pg, content = text,
                        stype = classify_heading lvl ttl\<rparr> # others))))"

definition extract_content_by_toc :: "parser \<Rightarrow> error + (section_dict list \<times> parser)" where
  "extract_content_by_toc p =
     (case (if toc p = [] then map_sum id snd (extract_toc p) else Inr p) of
        Inl e \<Rightarrow> Inl e
      | Inr p' \<Rightarrow>
          (case sections_loop (doc p') (toc p') [0 ..< length (toc p')] of
             Inl e \<Rightarrow> Inl e
           | Inr sections \<Rightarrow> Inr (sections, p')))"

section \<open>SmartTextSplitter\<close>

subsection \<open>\<^verbatim>\<open>_extract_concepts\<close>\<close>

definition cyr_small :: regex where
  \<comment> \<open>the class of the Cyrillic small letters U+0430 to U+044F\<close>
  "cyr_small = Atom (CRange 1072 1103)"

definition word_pat :: "regex \<Rightarrow> regex" where
  \<comment> \<open>\<^verbatim>\<open>\b(...)\b\<close>\<close>
  "word_pat body = seqs [WordB, Group 1 body, WordB]"

definition one_of :: "nat list \<Rightarrow> regex" where
  "one_of cs = Atom (foldr (\<lambda>c s. COr (CChar c) s) (butlast cs) (CChar (last cs)))"

definition big_o_pattern :: regex where
  \<comment> \<open>\<^verbatim>\<open>\b(O\([^\)]+\))\<close>, with a capital Latin O and no closing \<^verbatim>\<open>\b\<close>\<close>
  "big_o_pattern =
     Seq WordB (Group 1 (Seq (Atom (CChar 79))
       (seqs [Atom (CChar 40), one_or_more (Atom (CNot (CChar 41))), Atom (CChar 41)])))"

text \<open>
  \<^verbatim>\<open>concept_patterns\<close>, in the order of the source. The stems are Cyrillic: algoritm,
  slozhnost, derev, graf, massiv, spisok, stek, ochered, sortirov, poisk, rekursi,
  dinamichesk programmirovan, zhadn algoritm, hesh, kuch, obhod. The third pattern is the
  one for the asymptotic notation.
\<close>

definition concept_patterns :: "regex list" where
  "concept_patterns =
     [word_pat (Seq (lits [1072, 1083, 1075, 1086, 1088, 1080, 1090, 1084]) (Star cyr_small)),
      word_pat (Seq (lits [1089, 1083, 1086, 1078, 1085, 1086, 1089, 1090])
                  (one_of [1100, 1080])),
      big_o_pattern,
      word_pat (Seq (lits [1076, 1077, 1088, 1077, 1074]) (one_of [1072, 1086])),
      word_pat (Seq (lits [1075, 1088, 1072, 1092]) (Star cyr_small)),
      word_pat (Seq (lits [1084, 1072, 1089, 1089, 1080, 1074]) (Star cyr_small)),
      word_pat (Seq (lits [1089, 1087, 1080, 1089, 1086, 1082]) (Star cyr_small)),
      word_pat (Seq (lits [1089, 1090, 1077, 1082]) (Star cyr_small)),
      word_pat (Seq (lits [1086, 1095, 1077, 1088, 1077, 1076]) (one_of [1100, 1080, 1103])),
      word_pat (Seq (lits [1089, 1086, 1088, 1090, 1080, 1088, 1086, 1074])
                  (one_or_more cyr_small)),
      word_pat (Seq (lits [1087, 1086, 1080, 1089, 1082]) (Star cyr_small)),
      word_pat (Seq (lits [1088, 1077, 1082, 1091, 1088, 1089, 1080]) (one_of [1103, 1080])),
      word_pat (seqs [lits [1076, 1080, 1085, 1072, 1084, 1080, 1095, 1077, 1089, 1082],
                      one_or_more cyr_small,
                      lits [32, 1087, 1088, 1086, 1075, 1088, 1072, 1084, 1084, 1080, 1088,
                            1086, 1074, 1072, 1085],
                      one_or_more cyr_small]),
      word_pat (seqs [lits [1078, 1072, 1076, 1085], one_or_more cyr_small,
                      lits [32, 1072, 1083, 1075, 1086, 1088, 1080, 1090, 1084],
                      Star cyr_small]),
      word_pat (Seq (lits [1093, 1077, 1096]) (Star cyr_small)),
      word_pat (Seq (lits [1082, 1091, 1095]) (one_of [1072, 1080])),
      word_pat (Seq (lits [1086, 1073, 1093, 1086, 1076]) (Star cyr_small))]"

text \<open>The list \<^verbatim>\<open>concepts\<close> after the loop over the patterns.\<close>

definition concept_matches :: "ustr \<Rightarrow> ustr list" where
  "concept_matches text0 =
     concat (map (\<lambda>pattern. re_findall False pattern (lower text0)) concept_patterns)"

text \<open>
  \<^verbatim>\<open>list(set(concepts))\<close> lists the distinct matches in the iteration order of a hash
  set, which the language leaves open: the order is the parameter \<open>set_order\<close>, of which
  only \<open>set_order_ok\<close> is known.
\<close>

definition set_order_ok :: "(ustr list \<Rightarrow> ustr list) \<Rightarrow> bool" where
  "set_order_ok set_order \<longleftrightarrow>
     (\<forall>xs. distinct (set_order xs) \<and> set (set_order xs) = set xs)"

definition extract_concepts :: "(ustr list \<Rightarrow> ustr list) \<Rightarrow> ustr \<Rightarrow> ustr list" where
  "extract_concepts set_order text0 = take 10 (set_order (concept_matches text0))"

subsection \<open>\<^verbatim>\<open>split_section\<close>\<close>

text \<open>
  A metadata value is a string, an integer or a list of strings. A LangChain
  \<^verbatim>\<open>Document\<close> is its text and its metadata dict, kept in the order of the keys. The
  splitter \<^verbatim>\<open>RecursiveCharacterTextSplitter.split_text\<close> belongs to a library outside
  the repository and is the parameter \<open>split_text\<close>.
\<close>

datatype mval = MStr ustr | MInt int | MList "ustr list"

record lc_document =
  page_content :: ustr
  metadata :: "(string \<times> mval) list"

definition chunk_document ::
  "(ustr list \<Rightarrow> ustr list) \<Rightarrow> section_dict \<Rightarrow> ustr list \<Rightarrow> nat \<Rightarrow> nat \<times> ustr \<Rightarrow> lc_document"
where
  "chunk_document set_order section_data hierarchy total_chunks ic =
     (case ic of (i, chunk) \<Rightarrow>
        \<lparr>page_content = chunk,
         metadata =
           [(''source'', MStr (u ''algobook.pdf'')),
            (''title'', MStr (title section_data)),
            (''level'', MInt (level section_data)),
            (''type'', MStr (u (stype section_data))),
            (''page'', MInt (start_page section_data)),
            (''chunk_index'', MInt (int i)),
            (''total_chunks'', MInt (int total_chunks)),
            (''hierarchy'', MStr (join (u '' > '') hierarchy)),
            (''concepts'', MStr (join (u '', '') (extract_concepts set_order chunk)))]\<rparr>)"

text \<open>
  The section dicts come from \<^verbatim>\<open>extract_content_by_toc\<close> and have every key, so the
  defaults of \<^verbatim>\<open>section_data.get\<close> are not used. \<^verbatim>\<open>parent_hierarchy or []\<close> turns
  \<^verbatim>\<open>None\<close> into the empty list.
\<close>

definition split_section ::
  "(ustr \<Rightarrow> ustr list) \<Rightarrow> (ustr list \<Rightarrow> ustr list) \<Rightarrow> section_dict \<Rightarrow> ustr list option
     \<Rightarrow> lc_document list"
where
  "split_section split_text set_order section_data parent_hierarchy =
     (if content section_data = [] then []
      else
        let chunks = split_text (content section_data);
            hierarchy = (case parent_hierarchy of None \<Rightarrow> [] | Some h \<Rightarrow> h)
                        @ [title section_data]
        in map (chunk_document set_order section_data hierarchy (length chunks))
             (enumerate 0 chunks))"

section \<open>VectorStoreManager and DatabasePopulator\<close>

text \<open>
  The vector store is external. For a store handle of type \<open>'vs\<close> the environment gives:
  \<open>open_pdf\<close>, the result of \<^verbatim>\<open>PDFParser(self.pdf_path)\<close>; \<open>delete_collection\<close>, the
  call \<^verbatim>\<open>self.client.delete_collection(...)\<close>; \<open>new_manager\<close>, the constructor
  \<^verbatim>\<open>VectorStoreManager()\<close>; \<open>store_add\<close>, the call
  \<^verbatim>\<open>self.vectorstore.add_documents(...)\<close>, which returns the identifiers.
\<close>

record 'vs environment =
  open_pdf :: "error + document"
  delete_collection :: "'vs \<Rightarrow> error + unit"
  new_manager :: "error + 'vs"
  store_add :: "'vs \<Rightarrow> lc_document list \<Rightarrow> error + ustr list"

fun clean_value :: "mval \<Rightarrow> mval" where
  "clean_value (MList vs) = MStr (join (u '', '') vs)"
| "clean_value v = v"

definition clean_metadata :: "(string \<times> mval) list \<Rightarrow> (string \<times> mval) list" where
  "clean_metadata md = map (\<lambda>(k, v). (k, clean_value v)) md"

definition add_documents :: "'vs environment \<Rightarrow> 'vs \<Rightarrow> lc_document list \<Rightarrow> error + ustr list" where
  "add_documents env vs documents =
     store_add env vs (map (\<lambda>d. d\<lparr>metadata := clean_metadata (metadata d)\<rparr>) documents)"

text \<open>
  \<^verbatim>\<open>filter_complex_metadata\<close> of the LangChain library keeps the metadata values that are
  strings, booleans or numbers.
\<close>

fun is_simple :: "mval \<Rightarrow> bool" where
  "is_simple (MList vs) = False"
| "is_simple v = True"

definition filter_complex_metadata :: "lc_document list \<Rightarrow> lc_document list" where
  "filter_complex_metadata documents =
     map (\<lambda>d. d\<lparr>metadata := filter (\<lambda>kv. is_simple (snd kv)) (metadata d)\<rparr>) documents"

fun documents_loop ::
  "(ustr \<Rightarrow> ustr list) \<Rightarrow> (ustr list \<Rightarrow> ustr list) \<Rightarrow> section_dict list \<Rightarrow> nat list
     \<Rightarrow> error + lc_document list"
where
  "documents_loop split_text set_order sections [] = Inr []"
| "documents_loop split_text set_order sections (i # rest) =
     (case build_hierarchy sections (int i) of
        Inl e \<Rightarrow> Inl e
      | Inr hierarchy \<Rightarrow>
          (case documents_loop split_text set_order sections rest of
             Inl e \<Rightarrow> Inl e
           | Inr others \<Rightarrow>
               Inr (split_section split_text set_order (sections ! i) (Some hierarchy)
                    @ others)))"

record populate_result =
  status :: string
  failure :: "error option"
  total_sections :: nat
  total_documents :: nat
  document_ids :: "ustr list option"

datatype log_event = Warning error | Exception error

text \<open>
  The first part of \<^verbatim>\<open>populate\<close>: the store held in \<^verbatim>\<open>self.vector_store\<close> after the
  \<^verbatim>\<open>if clear_existing\<close> block, and what was logged. The assignment of the new manager
  sits after \<^verbatim>\<open>delete_collection()\<close> inside the \<^verbatim>\<open>try\<close>.
\<close>

definition clear_collection :: "'vs environment \<Rightarrow> 'vs \<Rightarrow> bool \<Rightarrow> 'vs \<times> log_event list" where
  "clear_collection env vs clear_existing =
     (if clear_existing then
        (case delete_collection env vs of
           Inl e \<Rightarrow> (vs, [Warning e])
         | Inr ok \<Rightarrow>
             (case new_manager env of
                Inl e \<Rightarrow> (vs, [Warning e])
              | Inr vs' \<Rightarrow> (vs', [])))
      else (vs, []))"

text \<open>
  \<^verbatim>\<open>populate\<close> returns the result dict, the store it wrote to and the warnings and
  exceptions it logged; \<open>Inl\<close> is an exception that leaves \<^verbatim>\<open>populate\<close>.
\<close>

definition populate ::
  "'vs environment \<Rightarrow> (ustr \<Rightarrow> ustr list) \<Rightarrow> (ustr list \<Rightarrow> ustr list) \<Rightarrow> 'vs \<Rightarrow> bool
     \<Rightarrow> error + (populate_result \<times> 'vs \<times> log_event list)"
where
  "populate env split_text set_order vector_store clear_existing =
     (case clear_collection env vector_store clear_existing of (vs, logged) \<Rightarrow>
      (case open_pdf env of
         Inl e \<Rightarrow> Inl e
       | Inr d \<Rightarrow>
      (case extract_toc \<lparr>doc = d, toc = []\<rparr> of
         Inl e \<Rightarrow> Inl e
       | Inr (toc_list, p1) \<Rightarrow>
      (case extract_content_by_toc p1 of
         Inl e \<Rightarrow> Inl e
       | Inr (sections, p2) \<Rightarrow>
      (case documents_loop split_text set_order sections [0 ..< length sections] of
         Inl e \<Rightarrow> Inl e
       | Inr all_documents \<Rightarrow>
           let filtered_documents = filter_complex_metadata all_documents in
           (case add_documents env vs filtered_documents of
              Inr doc_ids \<Rightarrow>
                Inr (\<lparr>status = ''success'', failure = None,
                      total_sections = length sections,
                      total_documents = length filtered_documents,
                      document_ids = Some doc_ids\<rparr>, vs, logged)
            | Inl e \<Rightarrow>
                Inr (\<lparr>status = ''error'', failure = Some e,
                      total_sections = length sections,
                      total_documents = length filtered_documents,
                      document_ids = None\<rparr>, vs, logged @ [Exception e])))))))"

section \<open>Example inputs\<close>

text \<open>A document of \<open>n\<close> empty pages without an embedded outline.\<close>

definition blank_document :: "nat \<Rightarrow> document" where
  "blank_document n =
     \<lparr>page_count = n, page_text = (\<lambda>i. if i < int n then Inr [] else Inl IndexError),
      embedded_toc = []\<rparr>"

text \<open>A document none of whose pages can be read.\<close>

definition unreadable_document :: "nat \<Rightarrow> document" where
  "unreadable_document n =
     \<lparr>page_count = n, page_text = (\<lambda>i. Inl SourceError), embedded_toc = []\<rparr>"

text \<open>An outline of five entries with the levels 1, 2, 2, 1, 2.\<close>

definition mixed_outline :: "toc_row list" where
  "mixed_outline =
     [(1, u ''A'', 1), (2, u ''A.1'', 2), (2, u ''A.2'', 3), (1, u ''B'', 4), (2, u ''B.1'', 5)]"

text \<open>An outline whose pages are not in increasing order.\<close>

definition unordered_outline :: "toc_row list" where
  "unordered_outline = [(1, u ''A'', 1), (1, u ''B'', 10), (1, u ''C'', 5)]"

text \<open>
  The text of the concept example, a Russian sentence that starts with "Massiv" and
  contains "slozhnost'", "O(n)" and "poiske", and the three words of it that the
  patterns match.
\<close>

definition massiv_text :: ustr where
  "massiv_text =
     [1052, 1072, 1089, 1089, 1080, 1074, 32, 1080, 1084, 1077, 1077, 1090, 32, 1089, 1083,
      1086, 1078, 1085, 1086, 1089, 1090, 1100, 32, 79, 40, 110, 41, 32, 1087, 1088, 1080,
      32, 1087, 1086, 1080, 1089, 1082, 1077]"

definition word_massiv :: ustr where
  "word_massiv = [1084, 1072, 1089, 1089, 1080, 1074]"

definition word_slozhnost :: ustr where
  "word_slozhnost = [1089, 1083, 1086, 1078, 1085, 1086, 1089, 1090, 1100]"

definition word_poiske :: ustr where
  "word_poiske = [1087, 1086, 1080, 1089, 1082, 1077]"

text \<open>The members the example names: the stems "slozhnost" and "poisk", and "o(n)".\<close>

definition stem_slozhnost :: ustr where
  "stem_slozhnost = [1089, 1083, 1086, 1078, 1085, 1086, 1089, 1090]"

definition stem_poisk :: ustr where
  "stem_poisk = [1087, 1086, 1080, 1089, 1082]"

text \<open>A splitter that returns the text as one chunk.\<close>

definition whole_text_splitter :: "ustr \<Rightarrow> ustr list" where
  "whole_text_splitter t = [t]"

definition sample_section :: section_dict where
  "sample_section =
     \<lparr>level = 2, title = u ''1.1'', start_page = 3, end_page = 4, content = u ''x'',
      stype = ''section''\<rparr>"

text \<open>
  A one-page document with an embedded outline of one entry, and a store environment in
  which deleting the collection fails, a new manager would be the store 1, and only the
  store 0 accepts documents (the identifiers it returns are the texts).
\<close>

definition one_page_document :: document where
  "one_page_document =
     \<lparr>page_count = 1, page_text = (\<lambda>i. if i < 1 then Inr (u ''x'') else Inl IndexError),
      embedded_toc = [(1, u ''A'', 1)]\<rparr>"

definition failing_clear_env :: "nat environment" where
  "failing_clear_env =
     \<lparr>open_pdf = Inr one_page_document,
      delete_collection = (\<lambda>vs. Inl SinkError),
      new_manager = Inr 1,
      store_add = (\<lambda>vs docs. if vs = 0 then Inr (map page_content docs) else Inl SinkError)\<rparr>"

text \<open>A line of the three-level shape, and a one-page document whose page is that line.\<close>

definition three_level_line :: ustr where
  "three_level_line = u ''1.2.3 Title .... 5''"

definition contents_page_document :: document where
  "contents_page_document =
     \<lparr>page_count = 1,
      page_text = (\<lambda>i. if i < 1 then Inr three_level_line else Inl IndexError),
      embedded_toc = []\<rparr>"

section \<open>Evaluating the scanning loop\<close>

lemma re_scan_end:
  "rmatch ic (Group 0 r) ((prev, []), []) = [] \<Longrightarrow> re_scan ic r ma (prev, []) = []"
  by (subst re_scan.simps) simp

lemma re_scan_skip:
  "rmatch ic (Group 0 r) ((prev, x # xs), []) = [] \<Longrightarrow>
   re_scan ic r ma (prev, x # xs) = Skipped x # re_scan ic r False (Some x, xs)"
  by (subst re_scan.simps) simp

lemma re_scan_match:
  "rmatch ic (Group 0 r) (p, []) = st' # sts \<Longrightarrow>
   re_scan ic r False p = Matched st' # re_scan ic r (remaining st' = length (snd p)) (fst st')"
  by (subst re_scan.simps) simp

text \<open>The facts that evaluate a pattern on a given text.\<close>

lemmas re_eval = re_scan_end re_scan_skip re_scan_match rmatch.simps one_or_more_def
  two_or_more_def is_space_def is_digit_def is_word_def remaining_def consumed_def
  re_sub_def re_findall_def re_match_def group_def at_boundary_def lower_def lower_cp_def

lemma clean_text_nil: "clean_text [] = []"
  by (simp add: clean_text_def re_eval whitespace_run_def page_number_line_def
      blank_lines_def strip_def)

lemma blank_readable: "n < int k \<Longrightarrow> page_text (blank_document k) n = Inr []"
  by (simp add: blank_document_def)

lemma text_parts_blank:
  "\<forall>n \<in> set ns. n < int k \<Longrightarrow> text_parts (blank_document k) ns = Inr (map (\<lambda>n. []) ns)"
  by (induction ns) (simp_all add: blank_readable clean_text_nil)

lemma extract_text_blank:
  "extract_text_from_pages (blank_document k) a b
     = Inr (join [10, 10] (map (\<lambda>n. []) [a .. min b (int k) - 1]))"
proof -
  have "\<forall>n \<in> set [a .. min b (int k) - 1]. n < int k" by auto
  from text_parts_blank [OF this] show ?thesis
    by (simp add: extract_text_from_pages_def blank_document_def)
qed

lemma py_int_5: "py_int (u ''5'') = Inr 5"
  by (simp add: py_int_def int_of_digits_def is_digit_def digit_value_def u_def)

lemma toc_line_three_level: "toc_line three_level_line = Inr [(2, u ''1.2 3 Title'', 5)]"
proof -
  have "re_match True lecture_pattern three_level_line = None"
    by (simp add: three_level_line_def lecture_pattern_def dots_page_def cyr_Lekciya_def
        re_eval u_def)
  moreover have "\<exists>m. re_match False section_pattern three_level_line = Some m
      \<and> group m 1 = u ''1'' \<and> group m 2 = u ''2'' \<and> group m 3 = u ''3 Title''
      \<and> group m 4 = u ''5''"
    by (simp add: three_level_line_def section_pattern_def dots_page_def re_eval u_def)
  ultimately show ?thesis
    by (auto simp: toc_line_def py_int_5) (simp add: u_def strip_def is_space_def)
qed

lemma manual_outline_contents_page:
  "extract_toc_manually contents_page_document = Inr [(2, u ''1.2 3 Title'', 5)]"
proof -
  have "split_char 10 three_level_line = [three_level_line]"
    by (simp add: three_level_line_def u_def)
  then show ?thesis
    by (simp add: extract_toc_manually_def contents_page_document_def toc_line_three_level)
qed

lemma page_count_blank: "page_count (blank_document k) = k"
  by (simp add: blank_document_def)

section \<open>Hierarchy resolution\<close>

lemma hierarchy_loop_walk:
  "k \<le> length sections \<Longrightarrow>
   hierarchy_loop sections k cur h = walk_ancestors (rev (take k sections)) cur @ h"
proof (induction k arbitrary: cur h)
  case 0
  then show ?case by simp
next
  case (Suc k)
  then have k: "k < length sections" by simp
  then have tk: "rev (take (Suc k) sections) = sections ! k # rev (take k sections)"
    by (simp add: take_Suc_conv_app_nth)
  from Suc have IH: "\<And>c g. hierarchy_loop sections k c g = walk_ancestors (rev (take k sections)) c @ g"
    by simp
  show ?case
    by (simp add: tk IH Let_def)
qed

lemma walk_to_root_at_root: "walk_to_root xs 1 = []"
  by (cases xs) simp_all

lemma walk_to_root_walk_ancestors:
  "\<forall>s \<in> set xs. 1 \<le> level s \<Longrightarrow> walk_to_root xs cur = walk_ancestors xs cur"
proof (induction xs arbitrary: cur)
  case Nil
  then show ?case by simp
next
  case (Cons s xs)
  then have l: "1 \<le> level s" and IH: "\<And>c. walk_to_root xs c = walk_ancestors xs c"
    by simp_all
  show ?case
  proof (cases "cur = 1")
    case True
    with l IH [of 1] show ?thesis by (simp add: walk_to_root_at_root)
  next
    case False
    from IH [of 1] have "walk_ancestors xs 1 = []"
      by (simp add: walk_to_root_at_root)
    with False IH [of "level s"] IH [of cur] show ?thesis
      by simp
  qed
qed

text \<open>
  C6: for an index inside the list, \<^const>\<open>build_hierarchy\<close> returns the ancestor titles
  that the walk of section 4.3 produces; when all levels are at least 1, as the data model
  has them, it makes no difference whether the walk tests for level 1 after an update or
  before every visit; on the three nested sections the level-3 section has the ancestors
  "Lekciya 1", "1.1" and the level-1 section has none.
\<close>

theorem build_hierarchy_resolves:
  "(\<forall>sections idx. 0 \<le> idx \<and> idx < int (length sections) \<longrightarrow>
      build_hierarchy sections idx = Inr (resolveAncestors sections (nat idx)))
   \<and> (\<forall>sections index. (\<forall>s \<in> set sections. 1 \<le> level s) \<longrightarrow>
      resolveAncestors sections index
        = walk_to_root (rev (take index sections)) (level (sections ! index)))
   \<and> build_hierarchy nested3 2 = Inr [lecture1, u ''1.1'']
   \<and> build_hierarchy nested3 0 = Inr []"
proof (intro conjI allI impI)
  fix sections :: "section_dict list" and idx :: int
  assume a: "0 \<le> idx \<and> idx < int (length sections)"
  then have "nat idx \<le> length sections" by linarith
  from hierarchy_loop_walk [OF this]
  show "build_hierarchy sections idx = Inr (resolveAncestors sections (nat idx))"
    using a by (simp add: build_hierarchy_def py_index_def resolveAncestors_def)
next
  fix sections :: "section_dict list" and index :: nat
  assume a: "\<forall>s \<in> set sections. 1 \<le> level s"
  have "set (rev (take index sections)) \<subseteq> set sections"
    by (simp add: set_take_subset)
  with a have "\<forall>s \<in> set (rev (take index sections)). 1 \<le> level s" by blast
  from walk_to_root_walk_ancestors [OF this]
  show "resolveAncestors sections index
        = walk_to_root (rev (take index sections)) (level (sections ! index))"
    by (simp add: resolveAncestors_def)
next
  show "build_hierarchy nested3 2 = Inr [lecture1, u ''1.1'']"
    by (simp add: build_hierarchy_def py_index_def nested3_def mk_section_def
        numeral_2_eq_2 u_def)
next
  show "build_hierarchy nested3 0 = Inr []"
    by (simp add: build_hierarchy_def py_index_def nested3_def mk_section_def)
qed

theorem build_hierarchy_resolves_witness:
  "0 \<le> (1::int) \<and> (1::int) < int (length nested3)
   \<and> 1 \<le> level (nested3 ! 0) \<and> 1 \<le> level (nested3 ! 1) \<and> 1 \<le> level (nested3 ! 2)
   \<and> build_hierarchy nested3 1 = Inr (resolveAncestors nested3 (nat 1))
   \<and> resolveAncestors nested3 1 = walk_to_root (rev (take 1 nested3)) (level (nested3 ! 1))
   \<and> resolveAncestors nested3 (nat 1) = [lecture1]"
proof -
  have h: "0 \<le> (1::int) \<and> (1::int) < int (length nested3)"
    by (simp add: nested3_def)
  have g: "\<forall>s \<in> set nested3. 1 \<le> level s"
    by (simp add: nested3_def mk_section_def)
  have "build_hierarchy nested3 1 = Inr (resolveAncestors nested3 (nat 1))"
    using build_hierarchy_resolves h by blast
  moreover have "resolveAncestors nested3 1
      = walk_to_root (rev (take 1 nested3)) (level (nested3 ! 1))"
    using build_hierarchy_resolves g by blast
  moreover have "resolveAncestors nested3 (nat 1) = [lecture1]"
    by (simp add: resolveAncestors_def nested3_def mk_section_def)
  moreover have "1 \<le> level (nested3 ! 0) \<and> 1 \<le> level (nested3 ! 1) \<and> 1 \<le> level (nested3 ! 2)"
    by (simp add: nested3_def mk_section_def)
  ultimately show ?thesis using h by simp
qed

section \<open>Text cleaning\<close>

lemma rmatch_subset:
  "st' \<in> set (rmatch ic r st) \<Longrightarrow> set (snd (fst st')) \<subseteq> set (snd (fst st))"
proof (induction ic r st arbitrary: st' rule: rmatch.induct)
  case (1 ic st)
  then show ?case by (simp add: rmatch.simps(1))
next
  case (2 ic cs st)
  then show ?case
    by (cases "snd (fst st)") (auto simp: rmatch.simps(2) split: if_splits)
next
  case (3 ic a b st)
  from "3.prems" obtain mid where m: "mid \<in> set (rmatch ic a st)"
    and s: "st' \<in> set (rmatch ic b mid)"
    by (auto simp: rmatch.simps(3))
  from "3.IH"(1) [OF m] "3.IH"(2) [OF m s] show ?case by blast
next
  case (4 ic r st)
  from "4.prems" have "st' = st \<or> (\<exists>mid \<in> set (rmatch ic r st).
      remaining mid < remaining st \<and> st' \<in> set (rmatch ic (Star r) mid))"
    by (subst (asm) rmatch.simps(4)) auto
  then show ?case
  proof
    assume "st' = st"
    then show ?thesis by simp
  next
    assume "\<exists>mid \<in> set (rmatch ic r st).
      remaining mid < remaining st \<and> st' \<in> set (rmatch ic (Star r) mid)"
    then obtain mid where m: "mid \<in> set (rmatch ic r st)"
      and l: "remaining mid < remaining st"
      and s: "st' \<in> set (rmatch ic (Star r) mid)" by blast
    from "4.IH"(1) [OF m] "4.IH"(2) [of mid st'] m l s show ?thesis by auto
  qed
next
  case (5 ic r st)
  from "5.prems" have "st' = st \<or> (\<exists>mid \<in> set (rmatch ic r st).
      remaining mid < remaining st \<and> st' \<in> set (rmatch ic (Lazy r) mid))"
    by (subst (asm) rmatch.simps(5)) auto
  then show ?case
  proof
    assume "st' = st"
    then show ?thesis by simp
  next
    assume "\<exists>mid \<in> set (rmatch ic r st).
      remaining mid < remaining st \<and> st' \<in> set (rmatch ic (Lazy r) mid)"
    then obtain mid where m: "mid \<in> set (rmatch ic r st)"
      and l: "remaining mid < remaining st"
      and s: "st' \<in> set (rmatch ic (Lazy r) mid)" by blast
    from "5.IH"(1) [OF m] "5.IH"(2) [of mid st'] m l s show ?thesis by auto
  qed
next
  case (6 ic n r st)
  from "6.prems" obtain mid where m: "mid \<in> set (rmatch ic r st)"
    and f: "fst st' = fst mid"
    by (auto simp: rmatch.simps(6))
  from "6.IH" [OF m] f show ?case by simp
next
  case (7 ic st)
  then show ?case by (simp add: rmatch.simps(7) split: if_splits)
next
  case (8 ic st)
  then show ?case by (simp add: rmatch.simps(8) split: if_splits)
qed

lemma newline_head_no_match:
  "10 \<notin> set (snd p) \<Longrightarrow> rmatch False (Group 0 (Seq (Atom (CChar 10)) r)) (p, caps) = []"
  by (cases "snd p") (auto simp: rmatch.simps(2,3,6))

lemma scan_newline_head:
  "10 \<notin> set rest \<Longrightarrow>
   re_scan False (Seq (Atom (CChar 10)) r) ma (prev, rest) = map Skipped rest"
proof (induction rest arbitrary: ma prev)
  case Nil
  then show ?case
    by (subst re_scan.simps) (simp add: newline_head_no_match)
next
  case (Cons x xs)
  then show ?case
    by (subst re_scan.simps) (simp add: newline_head_no_match)
qed

lemma sub_newline_head:
  "10 \<notin> set s \<Longrightarrow> re_sub False (Seq (Atom (CChar 10)) r) repl s = s"
  by (simp add: re_sub_def scan_newline_head o_def)

lemma space_run_candidate:
  assumes "is_space x"
  shows "((Some x, xs), [(0, [x])]) \<in> set (rmatch False (Group 0 whitespace_run) ((prev, x # xs), []))"
proof -
  let ?st1 = "((Some x, xs), []) :: mstate"
  have a: "rmatch False (Atom CSpace) ((prev, x # xs), []) = [?st1]"
    using assms by (simp add: rmatch.simps(2))
  have "?st1 \<in> set (rmatch False (Star (Atom CSpace)) ?st1)"
    by (subst rmatch.simps(4)) simp
  then have "?st1 \<in> set (rmatch False whitespace_run ((prev, x # xs), []))"
    by (simp add: whitespace_run_def one_or_more_def rmatch.simps(3) a)
  then show ?thesis
    by (force simp: rmatch.simps(6) consumed_def remaining_def)
qed


lemma scan_space_run:
  "set (concat (map (sub_piece [32]) (re_scan False whitespace_run ma (prev, rest))))
   \<subseteq> insert 32 {x \<in> set rest. \<not> is_space x}"
proof (induction "2 * length rest + (if ma then 0 else 1::nat)"
    arbitrary: ma prev rest rule: less_induct)
  case less
  let ?P = "\<lambda>st'. if ma then remaining st' < length (snd (prev, rest)) else True"
  let ?cands = "filter ?P (rmatch False (Group 0 whitespace_run) ((prev, rest), []))"
  show ?case
  proof (cases ?cands)
    case Nil
    show ?thesis
    proof (cases rest)
      case Nil
      with \<open>?cands = []\<close> show ?thesis
        by (subst re_scan.simps) simp
    next
      case (Cons x xs)
      have nx: "\<not> is_space x"
      proof
        assume "is_space x"
        from space_run_candidate [OF this, of xs prev]
        have "((Some x, xs), [(0, [x])]) \<in> set ?cands"
          by (simp add: Cons remaining_def)
        with \<open>?cands = []\<close> show False by simp
      qed
      have "set (concat (map (sub_piece [32]) (re_scan False whitespace_run False (Some x, xs))))
            \<subseteq> insert 32 {y \<in> set xs. \<not> is_space y}"
        by (rule less.hyps) (simp add: Cons)
      moreover have "re_scan False whitespace_run ma (prev, rest)
            = Skipped x # re_scan False whitespace_run False (Some x, xs)"
        using \<open>?cands = []\<close> by (subst re_scan.simps) (simp add: Cons)
      ultimately show ?thesis using nx by (auto simp: Cons)
    qed
  next
    case (Cons st' sts)
    from scan_candidate [OF Cons]
    have le: "remaining st' \<le> length rest" and P: "?P st'" by (auto split: if_splits)
    from Cons have "st' \<in> set ?cands" by simp
    then have m: "st' \<in> set (rmatch False (Group 0 whitespace_run) ((prev, rest), []))"
      by simp
    from rmatch_subset [OF m] have sub: "set (snd (fst st')) \<subseteq> set rest" by simp
    let ?ma' = "remaining st' = length (snd (prev, rest))"
    obtain prev' rest' where f: "fst st' = (prev', rest')" by (cases "fst st'")
    have "2 * length rest' + (if ?ma' then 0 else 1) < 2 * length rest + (if ma then 0 else 1)"
      using le P f by (auto simp: remaining_def split: if_splits)
    from less.hyps [OF this]
    have "set (concat (map (sub_piece [32]) (re_scan False whitespace_run ?ma' (prev', rest'))))
          \<subseteq> insert 32 {y \<in> set rest'. \<not> is_space y}" .
    moreover have "re_scan False whitespace_run ma (prev, rest)
          = Matched st' # re_scan False whitespace_run ?ma' (prev', rest')"
      using Cons f by (subst re_scan.simps) simp
    ultimately show ?thesis using sub f by auto
  qed
qed

lemma is_space_newline: "is_space 10"
  by (simp add: is_space_def)

lemma sub_space_run_no_newline:
  "10 \<notin> set (re_sub False whitespace_run [32] s)"
  using scan_space_run [of False None s] is_space_newline
  by (auto simp: re_sub_def)

lemma strip_subset: "set (strip s) \<subseteq> set s"
proof -
  have "set (strip s) \<subseteq> set (dropWhile is_space s)"
    using set_dropWhileD [of _ is_space "rev (dropWhile is_space s)"]
    by (auto simp: strip_def)
  also have "\<dots> \<subseteq> set s"
    using set_dropWhileD [of _ is_space s] by auto
  finally show ?thesis .
qed

text \<open>
  C10: for every input, \<^const>\<open>clean_text\<close> returns a text with no newline character.
  The first substitution leaves no whitespace but single spaces, so the text it returns
  has no newline; the two later substitutions, whose patterns start with a newline, return
  that text unchanged, and the result is that text stripped.
\<close>

theorem clean_text_no_newline:
  "10 \<notin> set (clean_text s)
   \<and> 10 \<notin> set (re_sub False whitespace_run [32] s)
   \<and> re_sub False page_number_line [10] (re_sub False whitespace_run [32] s)
       = re_sub False whitespace_run [32] s
   \<and> re_sub False blank_lines [10, 10] (re_sub False whitespace_run [32] s)
       = re_sub False whitespace_run [32] s
   \<and> clean_text s = strip (re_sub False whitespace_run [32] s)"
proof -
  let ?t = "re_sub False whitespace_run [32] s"
  have n: "10 \<notin> set ?t" by (rule sub_space_run_no_newline)
  have p: "re_sub False page_number_line [10] ?t = ?t"
    unfolding page_number_line_def by (rule sub_newline_head [OF n])
  have b: "re_sub False blank_lines [10, 10] ?t = ?t"
    unfolding blank_lines_def by (rule sub_newline_head [OF n])
  have c: "clean_text s = strip ?t"
    by (simp add: clean_text_def Let_def p b)
  from n strip_subset [of ?t] have "10 \<notin> set (strip ?t)" by blast
  with n p b c show ?thesis by simp
qed

theorem clean_text_no_newline_witness:
  "10 \<notin> set (clean_text [97, 10, 32, 55, 10, 98])
   \<and> clean_text [97, 10, 32, 55, 10, 98] = [97, 32, 55, 32, 98]"
proof -
  have "re_sub False whitespace_run [32] [97, 10, 32, 55, 10, 98] = [97, 32, 55, 32, 98]"
    by (simp add: re_eval whitespace_run_def)
  with clean_text_no_newline [of "[97, 10, 32, 55, 10, 98]"] show ?thesis
    by (simp add: strip_def is_space_def)
qed

section \<open>Section slicing\<close>

lemma scan_end_page_none:
  "\<forall>k \<in> set js. lvl < fst (rows ! k) \<Longrightarrow> scan_end_page rows lvl js = None"
  by (induction js) (auto split: prod.splits)

lemma scan_end_page_first:
  "\<forall>k \<in> set pre. lvl < fst (rows ! k) \<Longrightarrow> fst (rows ! j) \<le> lvl \<Longrightarrow>
   scan_end_page rows lvl (pre @ j # post) = Some (snd (snd (rows ! j)) - 1)"
  by (induction pre) (auto split: prod.splits)

lemma find_end_page_first:
  assumes "i < j" and "j < length rows" and "fst (rows ! j) \<le> fst (rows ! i)"
    and "\<forall>k. i < k \<and> k < j \<longrightarrow> fst (rows ! i) < fst (rows ! k)"
  shows "find_end_page d rows i = snd (snd (rows ! j)) - 1"
proof -
  have "[i + 1 ..< j + (length rows - j)] = [i + 1 ..< j] @ [j ..< j + (length rows - j)]"
    using assms(1) by (intro upt_add_eq_append) simp
  then have "[i + 1 ..< length rows] = [i + 1 ..< j] @ j # [Suc j ..< length rows]"
    using assms(2) by (simp add: upt_conv_Cons)
  moreover have "\<forall>k \<in> set [i + 1 ..< j]. fst (rows ! i) < fst (rows ! k)"
    using assms(4) by auto
  ultimately show ?thesis
    using scan_end_page_first [of "[i + 1 ..< j]" "fst (rows ! i)" rows j] assms(3)
    by (simp add: find_end_page_def)
qed

lemma find_end_page_last:
  assumes "\<forall>j. i < j \<and> j < length rows \<longrightarrow> fst (rows ! i) < fst (rows ! j)"
  shows "find_end_page d rows i = int (page_count d)"
proof -
  have "\<forall>k \<in> set [i + 1 ..< length rows]. fst (rows ! i) < fst (rows ! k)"
    using assms by auto
  from scan_end_page_none [OF this] show ?thesis
    by (simp add: find_end_page_def)
qed

lemma sections_loop_fields:
  "sections_loop d rows is = Inr secs \<Longrightarrow>
   list_all2 (\<lambda>i s. level s = fst (rows ! i) \<and> title s = strip (fst (snd (rows ! i)))
        \<and> start_page s = snd (snd (rows ! i)) \<and> end_page s = find_end_page d rows i
        \<and> stype s = classify_heading (fst (rows ! i)) (fst (snd (rows ! i)))
        \<and> extract_text_from_pages d (snd (snd (rows ! i)) - 1) (find_end_page d rows i)
            = Inr (content s))
     is secs"
proof (induction "is" arbitrary: secs)
  case Nil
  then show ?case by simp
next
  case (Cons i rest)
  then show ?case
    by (auto simp: Let_def split: prod.splits sum.splits)
qed

text \<open>
  The slicer reads, for the entry \<open>i\<close>, the pages from the start page of the entry minus
  one up to, and without, the smaller of its end page and the page count. When these
  pages can be read it returns.
\<close>

lemma text_parts_total:
  "\<forall>n \<in> set ns. \<exists>t. page_text d n = Inr t \<Longrightarrow> \<exists>ps. text_parts d ns = Inr ps"
proof (induction ns)
  case Nil
  then show ?case by simp
next
  case (Cons n ns)
  then obtain ps where "text_parts d ns = Inr ps" by auto
  moreover from Cons.prems obtain t where "page_text d n = Inr t" by auto
  ultimately show ?case by simp
qed

lemma extract_text_total:
  assumes "\<forall>n. a \<le> n \<and> n < min b (int (page_count d)) \<longrightarrow> (\<exists>t. page_text d n = Inr t)"
  shows "\<exists>t. extract_text_from_pages d a b = Inr t"
proof -
  from assms have "\<forall>n \<in> set [a .. min b (int (page_count d)) - 1]. \<exists>t. page_text d n = Inr t"
    by auto
  from text_parts_total [OF this] show ?thesis
    by (auto simp: extract_text_from_pages_def)
qed

lemma sections_loop_total:
  "\<forall>i \<in> set is. \<forall>n. snd (snd (rows ! i)) - 1 \<le> n
       \<and> n < min (find_end_page d rows i) (int (page_count d))
     \<longrightarrow> (\<exists>t. page_text d n = Inr t) \<Longrightarrow>
   \<exists>secs. sections_loop d rows is = Inr secs"
proof (induction "is")
  case Nil
  then show ?case by simp
next
  case (Cons i rest)
  then obtain secs where s: "sections_loop d rows rest = Inr secs" by auto
  obtain lvl ttl pg where r: "rows ! i = (lvl, ttl, pg)" by (cases "rows ! i")
  from Cons.prems r
  have "\<forall>n. pg - 1 \<le> n \<and> n < min (find_end_page d rows i) (int (page_count d))
          \<longrightarrow> (\<exists>t. page_text d n = Inr t)"
    by simp
  from extract_text_total [OF this]
  obtain t where "extract_text_from_pages d (pg - 1) (find_end_page d rows i) = Inr t" ..
  with s r show ?case by (simp add: Let_def)
qed

lemma extract_toc_keeps_doc:
  "extract_toc p = Inr (entries, p') \<Longrightarrow> doc p' = doc p"
  by (auto simp: extract_toc_def split: sum.splits if_splits)

lemma extract_content_fields:
  assumes "extract_content_by_toc p = Inr (secs, p')"
  shows "doc p' = doc p" and "toc p \<noteq> [] \<longrightarrow> p' = p"
    and "length secs = length (toc p')"
    and "\<And>i. i < length (toc p') \<Longrightarrow>
          level (secs ! i) = fst (toc p' ! i)
        \<and> title (secs ! i) = strip (fst (snd (toc p' ! i)))
        \<and> start_page (secs ! i) = snd (snd (toc p' ! i))
        \<and> end_page (secs ! i) = find_end_page (doc p') (toc p') i
        \<and> extract_text_from_pages (doc p') (snd (snd (toc p' ! i)) - 1)
              (find_end_page (doc p') (toc p') i)
            = Inr (content (secs ! i))"
proof -
  from assms have l: "sections_loop (doc p') (toc p') [0 ..< length (toc p')] = Inr secs"
    and d: "doc p' = doc p" "toc p \<noteq> [] \<longrightarrow> p' = p"
    by (auto simp: extract_content_by_toc_def extract_toc_def map_sum_def
        split: if_splits sum.splits)
  note f = sections_loop_fields [OF l, unfolded list_all2_conv_all_nth]
  from d show "doc p' = doc p" and "toc p \<noteq> [] \<longrightarrow> p' = p" by simp_all
  from f show "length secs = length (toc p')" by simp
  fix i
  assume "i < length (toc p')"
  with f show "level (secs ! i) = fst (toc p' ! i)
        \<and> title (secs ! i) = strip (fst (snd (toc p' ! i)))
        \<and> start_page (secs ! i) = snd (snd (toc p' ! i))
        \<and> end_page (secs ! i) = find_end_page (doc p') (toc p') i
        \<and> extract_text_from_pages (doc p') (snd (snd (toc p' ! i)) - 1)
              (find_end_page (doc p') (toc p') i)
            = Inr (content (secs ! i))"
    by simp
qed

lemma extract_content_total:
  assumes "toc p \<noteq> [] \<longrightarrow> p' = p"
    and "toc p = [] \<longrightarrow> (\<exists>entries. extract_toc p = Inr (entries, p'))"
    and "\<forall>i < length (toc p'). \<forall>n. snd (snd (toc p' ! i)) - 1 \<le> n
             \<and> n < min (find_end_page (doc p') (toc p') i) (int (page_count (doc p')))
           \<longrightarrow> (\<exists>t. page_text (doc p') n = Inr t)"
  shows "\<exists>secs. extract_content_by_toc p = Inr (secs, p')"
proof -
  from assms(3)
  have "\<forall>i \<in> set [0 ..< length (toc p')]. \<forall>n. snd (snd (toc p' ! i)) - 1 \<le> n
             \<and> n < min (find_end_page (doc p') (toc p') i) (int (page_count (doc p')))
           \<longrightarrow> (\<exists>t. page_text (doc p') n = Inr t)"
    by simp
  from sections_loop_total [OF this]
  obtain secs where s: "sections_loop (doc p') (toc p') [0 ..< length (toc p')] = Inr secs" ..
  show ?thesis
  proof (cases "toc p = []")
    case True
    with assms(2) obtain entries where "extract_toc p = Inr (entries, p')" by blast
    with True s show ?thesis by (simp add: extract_content_by_toc_def)
  next
    case False
    with assms(1) have "p' = p" by simp
    with False s show ?thesis by (simp add: extract_content_by_toc_def)
  qed
qed

lemma extract_content_blank:
  "rows \<noteq> [] \<Longrightarrow>
   \<exists>secs. extract_content_by_toc \<lparr>doc = blank_document k, toc = rows\<rparr>
      = Inr (secs, \<lparr>doc = blank_document k, toc = rows\<rparr>)"
  by (rule extract_content_total) (simp_all add: blank_readable page_count_blank)

text \<open>
  C1 (amended): the \<open>end_page\<close> of the section of entry \<open>i\<close> is the page of the first
  later entry whose level is not deeper, minus one, and the page count of the document
  when every later entry is deeper.
\<close>

theorem end_page_first_later_entry:
  assumes "extract_content_by_toc p = Inr (secs, p')" and "i < length (toc p')"
  shows "(\<forall>j. i < j \<and> j < length (toc p') \<and> fst (toc p' ! j) \<le> fst (toc p' ! i)
              \<and> (\<forall>k. i < k \<and> k < j \<longrightarrow> fst (toc p' ! i) < fst (toc p' ! k))
            \<longrightarrow> end_page (secs ! i) = snd (snd (toc p' ! j)) - 1)
       \<and> ((\<forall>j. i < j \<and> j < length (toc p') \<longrightarrow> fst (toc p' ! i) < fst (toc p' ! j))
            \<longrightarrow> end_page (secs ! i) = int (page_count (doc p')))"
proof -
  from extract_content_fields(4) [OF assms]
  have e: "end_page (secs ! i) = find_end_page (doc p') (toc p') i" by simp
  show ?thesis
  proof (intro conjI allI impI)
    fix j
    assume "i < j \<and> j < length (toc p') \<and> fst (toc p' ! j) \<le> fst (toc p' ! i)
              \<and> (\<forall>k. i < k \<and> k < j \<longrightarrow> fst (toc p' ! i) < fst (toc p' ! k))"
    then show "end_page (secs ! i) = snd (snd (toc p' ! j)) - 1"
      using find_end_page_first [of i j "toc p'" "doc p'"] e by simp
  next
    assume "\<forall>j. i < j \<and> j < length (toc p') \<longrightarrow> fst (toc p' ! i) < fst (toc p' ! j)"
    then show "end_page (secs ! i) = int (page_count (doc p'))"
      using find_end_page_last [of i "toc p'" "doc p'"] e by simp
  qed
qed

text \<open>
  The minimum over all later entries that are not deeper is a different page when the
  pages of the outline are not increasing: for the outline with the pages 1, 10, 5 on one
  level the first section ends at page 9, although the minimum is 4.
\<close>

theorem end_page_min_counterexample:
  "map_sum id (map end_page \<circ> fst)
     (extract_content_by_toc \<lparr>doc = blank_document 12, toc = unordered_outline\<rparr>)
     = Inr [9, 4, 12]
   \<and> fst (unordered_outline ! 1) \<le> fst (unordered_outline ! 0)
   \<and> fst (unordered_outline ! 2) \<le> fst (unordered_outline ! 0)
   \<and> min (snd (snd (unordered_outline ! 1)) - 1) (snd (snd (unordered_outline ! 2)) - 1) = 4"
  by (simp add: extract_content_by_toc_def unordered_outline_def page_count_blank
      find_end_page_def extract_text_blank upt_rec Let_def)

theorem end_page_first_later_entry_witness:
  "\<exists>secs p'. extract_content_by_toc \<lparr>doc = blank_document 20, toc = mixed_outline\<rparr>
       = Inr (secs, p')
     \<and> end_page (secs ! 0) = 3 \<and> end_page (secs ! 1) = 2 \<and> end_page (secs ! 4) = 20"
proof -
  let ?p = "\<lparr>doc = blank_document 20, toc = mixed_outline\<rparr>"
  from extract_content_blank [of mixed_outline 20]
  obtain secs p' where e: "extract_content_by_toc ?p = Inr (secs, p')" and p: "p' = ?p"
    by (auto simp: mixed_outline_def)
  have l: "length (toc p') = 5" by (simp add: p mixed_outline_def)
  have k3: "\<And>k::nat. 0 < k \<and> k < 3 \<longleftrightarrow> k = 1 \<or> k = 2" by auto
  have k4: "\<And>j::nat. 4 < j \<and> j < 5 \<longleftrightarrow> False" by auto
  have "end_page (secs ! 0) = 3"
    using end_page_first_later_entry [OF e, of 0, THEN conjunct1, rule_format, of 3]
    by (simp add: p mixed_outline_def k3 numeral_3_eq_3 nth_Cons')
  moreover have "end_page (secs ! 1) = 2"
    using end_page_first_later_entry [OF e, of 1, THEN conjunct1, rule_format, of 2]
    by (simp add: p mixed_outline_def numeral_2_eq_2) 
  moreover have "end_page (secs ! 4) = 20"
    using end_page_first_later_entry [OF e, of 4, THEN conjunct2]
    by (simp add: p mixed_outline_def k4 blank_document_def)
  ultimately show ?thesis using e by blast
qed


text \<open>
  C8: the outline the slicer works on is \<^verbatim>\<open>self.toc\<close>, or, when that is still empty, the
  outline that \<^verbatim>\<open>extract_toc\<close> stores there. When the pages that the slicer reads for the
  entries of this outline can be read, it returns one section per entry, in the order of
  the outline, each with the level, the stripped title and the page of its entry,
  whatever the content of the section is. The pages read all lie below the page count,
  so the condition holds for a document whose pages below the page count can be read.
\<close>

theorem one_section_per_entry:
  assumes "toc p \<noteq> [] \<longrightarrow> p' = p"
    and "toc p = [] \<longrightarrow> (\<exists>entries. extract_toc p = Inr (entries, p'))"
    and "\<forall>i < length (toc p'). \<forall>n. snd (snd (toc p' ! i)) - 1 \<le> n
             \<and> n < min (find_end_page (doc p') (toc p') i) (int (page_count (doc p')))
           \<longrightarrow> (\<exists>t. page_text (doc p') n = Inr t)"
  shows "\<exists>secs. extract_content_by_toc p = Inr (secs, p')
      \<and> length secs = length (toc p')
      \<and> (\<forall>i < length (toc p'). level (secs ! i) = fst (toc p' ! i)
            \<and> title (secs ! i) = strip (fst (snd (toc p' ! i)))
            \<and> start_page (secs ! i) = snd (snd (toc p' ! i)))"
proof -
  from extract_content_total [OF assms] obtain secs
    where e: "extract_content_by_toc p = Inr (secs, p')" ..
  note f = extract_content_fields [OF e]
  from f(3) have "length secs = length (toc p')" .
  moreover from f(4) have "\<forall>i < length (toc p'). level (secs ! i) = fst (toc p' ! i)
            \<and> title (secs ! i) = strip (fst (snd (toc p' ! i)))
            \<and> start_page (secs ! i) = snd (snd (toc p' ! i))"
    by simp
  ultimately show ?thesis using e by blast
qed

text \<open>
  Two runs: a document of twenty pages with the outline of five entries, and the one-page
  document without an embedded outline, where the slicer first extracts the outline from
  the page and then makes one section for its one entry, with empty content since the
  entry points to page 5.
\<close>

theorem one_section_per_entry_witness:
  "(\<exists>secs. extract_content_by_toc \<lparr>doc = blank_document 20, toc = mixed_outline\<rparr>
          = Inr (secs, \<lparr>doc = blank_document 20, toc = mixed_outline\<rparr>)
        \<and> length secs = 5 \<and> level (secs ! 2) = 2 \<and> title (secs ! 2) = u ''A.2''
        \<and> start_page (secs ! 2) = 3)
   \<and> (\<exists>secs. extract_content_by_toc \<lparr>doc = contents_page_document, toc = []\<rparr>
          = Inr (secs, \<lparr>doc = contents_page_document, toc = [(2, u ''1.2 3 Title'', 5)]\<rparr>)
        \<and> length secs = 1 \<and> level (secs ! 0) = 2 \<and> title (secs ! 0) = u ''1.2 3 Title''
        \<and> start_page (secs ! 0) = 5)"
proof -
  let ?p = "\<lparr>doc = blank_document 20, toc = mixed_outline\<rparr>"
  let ?q = "\<lparr>doc = contents_page_document, toc = []\<rparr>"
  let ?q' = "\<lparr>doc = contents_page_document, toc = [(2, u ''1.2 3 Title'', 5)]\<rparr>"
  have p1: "toc ?p \<noteq> [] \<longrightarrow> ?p = ?p" by simp
  have p2: "toc ?p = [] \<longrightarrow> (\<exists>entries. extract_toc ?p = Inr (entries, ?p))"
    by (simp add: mixed_outline_def)
  have p3: "\<forall>i < length (toc ?p). \<forall>n. snd (snd (toc ?p ! i)) - 1 \<le> n
             \<and> n < min (find_end_page (doc ?p) (toc ?p) i) (int (page_count (doc ?p)))
           \<longrightarrow> (\<exists>t. page_text (doc ?p) n = Inr t)"
    by (simp add: blank_readable page_count_blank)
  from one_section_per_entry [OF p1 p2 p3] obtain secs
    where e: "extract_content_by_toc ?p = Inr (secs, ?p)"
      and l: "length secs = length (toc ?p)"
      and f: "\<forall>i < length (toc ?p). level (secs ! i) = fst (toc ?p ! i)
            \<and> title (secs ! i) = strip (fst (snd (toc ?p ! i)))
            \<and> start_page (secs ! i) = snd (snd (toc ?p ! i))"
    by blast
  from l have "length secs = 5" by (simp add: mixed_outline_def)
  moreover from f have "level (secs ! 2) = 2 \<and> title (secs ! 2) = u ''A.2''
      \<and> start_page (secs ! 2) = 3"
    by (simp add: mixed_outline_def strip_def is_space_def u_def)
  ultimately have first: "\<exists>secs. extract_content_by_toc ?p = Inr (secs, ?p)
        \<and> length secs = 5 \<and> level (secs ! 2) = 2 \<and> title (secs ! 2) = u ''A.2''
        \<and> start_page (secs ! 2) = 3"
    using e by blast
  have q1: "toc ?q \<noteq> [] \<longrightarrow> ?q' = ?q" by simp
  have "embedded_toc contents_page_document = []"
    by (simp add: contents_page_document_def)
  then have q2: "toc ?q = [] \<longrightarrow> (\<exists>entries. extract_toc ?q = Inr (entries, ?q'))"
    by (simp add: extract_toc_def manual_outline_contents_page)
  have q3: "\<forall>i < length (toc ?q'). \<forall>n. snd (snd (toc ?q' ! i)) - 1 \<le> n
             \<and> n < min (find_end_page (doc ?q') (toc ?q') i) (int (page_count (doc ?q')))
           \<longrightarrow> (\<exists>t. page_text (doc ?q') n = Inr t)"
    by (simp add: contents_page_document_def)
  from one_section_per_entry [OF q1 q2 q3] obtain secs'
    where e': "extract_content_by_toc ?q = Inr (secs', ?q')"
      and l': "length secs' = length (toc ?q')"
      and f': "\<forall>i < length (toc ?q'). level (secs' ! i) = fst (toc ?q' ! i)
            \<and> title (secs' ! i) = strip (fst (snd (toc ?q' ! i)))
            \<and> start_page (secs' ! i) = snd (snd (toc ?q' ! i))"
    by blast
  from l' have "length secs' = 1" by simp
  moreover from f' have "level (secs' ! 0) = 2 \<and> title (secs' ! 0) = u ''1.2 3 Title''
      \<and> start_page (secs' ! 0) = 5"
    by (simp add: strip_def is_space_def u_def)
  ultimately have second: "\<exists>secs. extract_content_by_toc ?q = Inr (secs, ?q')
        \<and> length secs = 1 \<and> level (secs ! 0) = 2 \<and> title (secs ! 0) = u ''1.2 3 Title''
        \<and> start_page (secs ! 0) = 5"
    using e' by blast
  from first second show ?thesis by blast
qed

lemma empty_range_no_read:
  "end_pg < start_pg \<Longrightarrow> extract_text_from_pages d (start_pg - 1) end_pg = Inr []"
  by (simp add: extract_text_from_pages_def)

text \<open>
  C9: a page range whose end lies before its start reads no page and gives the empty
  text, also on a document whose pages cannot be read; a section of the slicer with such
  a range has empty content; a section with empty content is split into no chunks.
\<close>

theorem malformed_range_empty_content:
  "(end_pg < start_pg \<longrightarrow> extract_text_from_pages d (start_pg - 1) end_pg = Inr [])
   \<and> (extract_content_by_toc p = Inr (secs, p') \<and> s \<in> set secs \<and> end_page s < start_page s
        \<longrightarrow> content s = [])
   \<and> (content sd = [] \<longrightarrow> split_section split_text set_order sd parent_hierarchy = [])"
proof (intro conjI impI)
  assume "end_pg < start_pg"
  then show "extract_text_from_pages d (start_pg - 1) end_pg = Inr []"
    by (rule empty_range_no_read)
next
  assume a: "extract_content_by_toc p = Inr (secs, p') \<and> s \<in> set secs
    \<and> end_page s < start_page s"
  then obtain i where i: "i < length secs" and si: "s = secs ! i"
    by (auto simp: in_set_conv_nth)
  note f = extract_content_fields [of p secs p']
  from a i f(3) have "i < length (toc p')" by simp
  from f(4) [OF a [THEN conjunct1] this] si
  have "start_page s = snd (snd (toc p' ! i))"
    and "end_page s = find_end_page (doc p') (toc p') i"
    and "extract_text_from_pages (doc p') (snd (snd (toc p' ! i)) - 1)
              (find_end_page (doc p') (toc p') i) = Inr (content s)"
    by simp_all
  then have "extract_text_from_pages (doc p') (start_page s - 1) (end_page s) = Inr (content s)"
    by simp
  with a empty_range_no_read [of "end_page s" "start_page s" "doc p'"]
  show "content s = []" by simp
next
  assume "content sd = []"
  then show "split_section split_text set_order sd parent_hierarchy = []"
    by (simp add: split_section_def)
qed

theorem malformed_range_empty_content_witness:
  "(3::int) < 7
   \<and> extract_text_from_pages (unreadable_document 10) (7 - 1) 3 = Inr []
   \<and> (\<exists>secs p'. extract_content_by_toc \<lparr>doc = blank_document 12, toc = unordered_outline\<rparr>
           = Inr (secs, p')
         \<and> secs ! 1 \<in> set secs \<and> end_page (secs ! 1) < start_page (secs ! 1)
         \<and> content (secs ! 1) = [])
   \<and> content (mk_section 1 (u ''A'')) = []
   \<and> split_section whole_text_splitter remdups (mk_section 1 (u ''A'')) None = []"
proof -
  let ?p = "\<lparr>doc = blank_document 12, toc = unordered_outline\<rparr>"
  let ?s = "mk_section 1 (u ''A'')"
  from extract_content_blank [of unordered_outline 12]
  obtain secs p' where e: "extract_content_by_toc ?p = Inr (secs, p')" and p: "p' = ?p"
    by (auto simp: unordered_outline_def)
  from extract_content_fields(3) [OF e] have l: "length secs = 3"
    by (simp add: p unordered_outline_def)
  then have m: "secs ! 1 \<in> set secs" by simp
  from extract_content_fields(4) [OF e, of 1]
  have r: "end_page (secs ! 1) < start_page (secs ! 1)"
    by (simp add: p unordered_outline_def find_end_page_def upt_rec)
  have c: "content ?s = []" by (simp add: mk_section_def)
  note t = malformed_range_empty_content [of 3 7 "unreadable_document 10" ?p secs p'
      "secs ! 1" ?s whole_text_splitter remdups None]
  from t e m r c show ?thesis by simp
qed

section \<open>Manual outline extraction\<close>

text \<open>
  Where a pattern can end does not depend on the captures made before. This gives the
  end positions of a sequence, a group and a repetition from those of their parts.
\<close>

lemma star_positions:
  assumes "\<And>q caps. fst ` set (rmatch ic r (q, caps)) = E q"
    and "\<And>q caps. length (snd q) < length (snd p) \<Longrightarrow>
           fst ` set (rmatch ic (Star r) (q, caps)) = S q"
  shows "fst ` set (rmatch ic (Star r) (p, caps))
         = insert p (\<Union>q \<in> {q \<in> E p. length (snd q) < length (snd p)}. S q)"
proof -
  let ?M = "{m \<in> set (rmatch ic r (p, caps)). remaining m < length (snd p)}"
  have "fst ` set (rmatch ic (Star r) (p, caps))
        = insert p (\<Union>m \<in> ?M. fst ` set (rmatch ic (Star r) m))"
    by (subst rmatch.simps(4)) (auto simp: remaining_def)
  also have "(\<Union>m \<in> ?M. fst ` set (rmatch ic (Star r) m)) = (\<Union>m \<in> ?M. S (fst m))"
  proof (intro SUP_cong refl)
    fix m assume "m \<in> ?M"
    then have "length (snd (fst m)) < length (snd p)" by (simp add: remaining_def)
    from assms(2) [OF this, of "snd m"] show "fst ` set (rmatch ic (Star r) m) = S (fst m)"
      by simp
  qed
  also have "\<dots> = (\<Union>q \<in> fst ` ?M. S q)" by simp
  also have "fst ` ?M
      = {q \<in> fst ` set (rmatch ic r (p, caps)). length (snd q) < length (snd p)}"
    by (force simp: remaining_def)
  also have "\<dots> = {q \<in> E p. length (snd q) < length (snd p)}"
    by (simp only: assms(1))
  finally show ?thesis .
qed

lemma lazy_positions:
  assumes "\<And>q caps. fst ` set (rmatch ic r (q, caps)) = E q"
    and "\<And>q caps. length (snd q) < length (snd p) \<Longrightarrow>
           fst ` set (rmatch ic (Lazy r) (q, caps)) = S q"
  shows "fst ` set (rmatch ic (Lazy r) (p, caps))
         = insert p (\<Union>q \<in> {q \<in> E p. length (snd q) < length (snd p)}. S q)"
proof -
  let ?M = "{m \<in> set (rmatch ic r (p, caps)). remaining m < length (snd p)}"
  have "fst ` set (rmatch ic (Lazy r) (p, caps))
        = insert p (\<Union>m \<in> ?M. fst ` set (rmatch ic (Lazy r) m))"
    by (subst rmatch.simps(5)) (auto simp: remaining_def)
  also have "(\<Union>m \<in> ?M. fst ` set (rmatch ic (Lazy r) m)) = (\<Union>m \<in> ?M. S (fst m))"
  proof (intro SUP_cong refl)
    fix m assume "m \<in> ?M"
    then have "length (snd (fst m)) < length (snd p)" by (simp add: remaining_def)
    from assms(2) [OF this, of "snd m"] show "fst ` set (rmatch ic (Lazy r) m) = S (fst m)"
      by simp
  qed
  also have "\<dots> = (\<Union>q \<in> fst ` ?M. S q)" by simp
  also have "fst ` ?M
      = {q \<in> fst ` set (rmatch ic r (p, caps)). length (snd q) < length (snd p)}"
    by (force simp: remaining_def)
  also have "\<dots> = {q \<in> E p. length (snd q) < length (snd p)}"
    by (simp only: assms(1))
  finally show ?thesis .
qed


lemma positions_caps:
  "fst ` set (rmatch ic r (p, caps)) = ends ic r p"
proof (induction r arbitrary: p caps)
  case Eps
  show ?case by (simp add: ends_def rmatch.simps)
next
  case (Atom c)
  show ?case by (cases "snd p") (auto simp: ends_def rmatch.simps)
next
  case (Seq a b)
  have "\<And>caps. fst ` set (rmatch ic (Seq a b) (p, caps)) = (\<Union>q \<in> ends ic a p. ends ic b q)"
  proof -
    fix caps
    have "fst ` set (rmatch ic (Seq a b) (p, caps))
          = (\<Union>m \<in> set (rmatch ic a (p, caps)). fst ` set (rmatch ic b m))"
      by (simp add: rmatch.simps image_UN)
    also have "\<dots> = (\<Union>m \<in> set (rmatch ic a (p, caps)). ends ic b (fst m))"
    proof (intro SUP_cong refl)
      fix m
      from Seq.IH(2) [of "fst m" "snd m"]
      show "fst ` set (rmatch ic b m) = ends ic b (fst m)" by simp
    qed
    also have "\<dots> = (\<Union>q \<in> fst ` set (rmatch ic a (p, caps)). ends ic b q)" by simp
    also have "\<dots> = (\<Union>q \<in> ends ic a p. ends ic b q)" by (simp only: Seq.IH(1))
    finally show "fst ` set (rmatch ic (Seq a b) (p, caps)) = (\<Union>q \<in> ends ic a p. ends ic b q)" .
  qed
  then show ?case by (simp add: ends_def)
next
  case (Star r)
  have "fst ` set (rmatch ic (Star r) (p, caps)) = fst ` set (rmatch ic (Star r) (p, []))"
    for p caps
  proof (induction "length (snd p)" arbitrary: p caps rule: less_induct)
    case less
    have i: "\<And>q caps. length (snd q) < length (snd p) \<Longrightarrow>
        fst ` set (rmatch ic (Star r) (q, caps)) = fst ` set (rmatch ic (Star r) (q, []))"
      by (rule less.hyps)
    note s = star_positions [of ic r "ends ic r" p "\<lambda>q. fst ` set (rmatch ic (Star r) (q, []))",
        OF Star.IH i]
    from s [of caps] s [of "[]"] show ?case by simp
  qed
  then show ?case by (simp add: ends_def)
next
  case (Lazy r)
  have "fst ` set (rmatch ic (Lazy r) (p, caps)) = fst ` set (rmatch ic (Lazy r) (p, []))"
    for p caps
  proof (induction "length (snd p)" arbitrary: p caps rule: less_induct)
    case less
    have i: "\<And>q caps. length (snd q) < length (snd p) \<Longrightarrow>
        fst ` set (rmatch ic (Lazy r) (q, caps)) = fst ` set (rmatch ic (Lazy r) (q, []))"
      by (rule less.hyps)
    note s = lazy_positions [of ic r "ends ic r" p "\<lambda>q. fst ` set (rmatch ic (Lazy r) (q, []))",
        OF Lazy.IH i]
    from s [of caps] s [of "[]"] show ?case by simp
  qed
  then show ?case by (simp add: ends_def)
next
  case (Group n r)
  have "\<And>caps. fst ` set (rmatch ic (Group n r) (p, caps)) = fst ` set (rmatch ic r (p, caps))"
    by (simp add: rmatch.simps image_image)
  with Group show ?case by (simp add: ends_def)
next
  case WordB
  show ?case by (auto simp: ends_def rmatch.simps)
next
  case Bol
  show ?case by (auto simp: ends_def rmatch.simps)
qed

lemma ends_Seq: "ends ic (Seq a b) p = (\<Union>q \<in> ends ic a p. ends ic b q)"
proof -
  have "ends ic (Seq a b) p = (\<Union>m \<in> set (rmatch ic a (p, [])). fst ` set (rmatch ic b m))"
    by (simp add: ends_def rmatch.simps image_UN)
  also have "\<dots> = (\<Union>m \<in> set (rmatch ic a (p, [])). ends ic b (fst m))"
  proof (intro SUP_cong refl)
    fix m
    from positions_caps [of ic b "fst m" "snd m"]
    show "fst ` set (rmatch ic b m) = ends ic b (fst m)" by simp
  qed
  also have "\<dots> = (\<Union>q \<in> fst ` set (rmatch ic a (p, [])). ends ic b q)" by simp
  finally show ?thesis by (simp add: ends_def)
qed

lemma ends_Group: "ends ic (Group n r) p = ends ic r p"
  by (simp add: ends_def rmatch.simps image_image)

lemma ends_Star:
  "ends ic (Star r) p
   = insert p (\<Union>q \<in> {q \<in> ends ic r p. length (snd q) < length (snd p)}. ends ic (Star r) q)"
  using star_positions [of ic r "ends ic r" p "ends ic (Star r)" "[]"]
  by (simp add: positions_caps)

lemma ends_Lazy:
  "ends ic (Lazy r) p
   = insert p (\<Union>q \<in> {q \<in> ends ic r p. length (snd q) < length (snd p)}. ends ic (Lazy r) q)"
  using lazy_positions [of ic r "ends ic r" p "ends ic (Lazy r)" "[]"]
  by (simp add: positions_caps)

lemma ends_Atom:
  "ends ic (Atom c) (prev, x # xs) = (if atom_matches ic c x then {(Some x, xs)} else {})"
  "ends ic (Atom c) (prev, []) = {}"
  by (simp_all add: ends_def rmatch.simps)

lemma ends_Bol: "ends ic Bol p = (if fst p = None then {p} else {})"
  by (simp add: ends_def rmatch.simps)


lemma forward_refl: "forward p p"
  by (simp add: forward_def)

lemma forward_trans: "forward p m \<Longrightarrow> forward m q \<Longrightarrow> forward p q"
  unfolding forward_def
proof (elim exE conjE)
  fix ys zs
  assume a: "snd p = ys @ snd m" "fst m = (if ys = [] then fst p else Some (last ys))"
    "snd m = zs @ snd q" "fst q = (if zs = [] then fst m else Some (last zs))"
  then have "snd p = (ys @ zs) @ snd q
      \<and> fst q = (if ys @ zs = [] then fst p else Some (last (ys @ zs)))"
    by auto
  then show "\<exists>ys. snd p = ys @ snd q \<and> fst q = (if ys = [] then fst p else Some (last ys))"
    by blast
qed

lemma forward_suffix: "forward p q \<Longrightarrow> set (snd q) \<subseteq> set (snd p)"
  by (auto simp: forward_def)

lemma ends_forward: "q \<in> ends ic r p \<Longrightarrow> forward p q"
proof (induction r arbitrary: p q)
  case Eps
  then show ?case by (simp add: ends_def rmatch.simps forward_refl)
next
  case (Atom c)
  obtain prev rest where p: "p = (prev, rest)" by (cases p)
  show ?case
  proof (cases rest)
    case Nil
    with Atom p show ?thesis by (simp add: ends_Atom)
  next
    case (Cons x xs)
    with Atom p have "q = (Some x, xs)" by (simp add: ends_Atom split: if_splits)
    with p Cons show ?thesis
      unfolding forward_def by (intro exI [of _ "[x]"]) simp
  qed
next
  case (Seq a b)
  from Seq.prems obtain m where m: "m \<in> ends ic a p" "q \<in> ends ic b m"
    by (auto simp: ends_Seq)
  from Seq.IH(1) [OF m(1)] Seq.IH(2) [OF m(2)] show ?case by (rule forward_trans)
next
  case (Star r)
  from Star.prems show ?case
  proof (induction "length (snd p)" arbitrary: p rule: less_induct)
    case less
    from less.prems have "q = p \<or> (\<exists>m \<in> ends ic r p. length (snd m) < length (snd p)
        \<and> q \<in> ends ic (Star r) m)"
      by (subst (asm) ends_Star) auto
    then show ?case
    proof
      assume "q = p"
      then show ?thesis by (simp add: forward_refl)
    next
      assume "\<exists>m \<in> ends ic r p. length (snd m) < length (snd p) \<and> q \<in> ends ic (Star r) m"
      then obtain m where m: "m \<in> ends ic r p" "length (snd m) < length (snd p)"
        "q \<in> ends ic (Star r) m" by blast
      from Star.IH [OF m(1)] less.hyps [OF m(2) m(3)] show ?thesis by (rule forward_trans)
    qed
  qed
next
  case (Lazy r)
  from Lazy.prems show ?case
  proof (induction "length (snd p)" arbitrary: p rule: less_induct)
    case less
    from less.prems have "q = p \<or> (\<exists>m \<in> ends ic r p. length (snd m) < length (snd p)
        \<and> q \<in> ends ic (Lazy r) m)"
      by (subst (asm) ends_Lazy) auto
    then show ?case
    proof
      assume "q = p"
      then show ?thesis by (simp add: forward_refl)
    next
      assume "\<exists>m \<in> ends ic r p. length (snd m) < length (snd p) \<and> q \<in> ends ic (Lazy r) m"
      then obtain m where m: "m \<in> ends ic r p" "length (snd m) < length (snd p)"
        "q \<in> ends ic (Lazy r) m" by blast
      from Lazy.IH [OF m(1)] less.hyps [OF m(2) m(3)] show ?thesis by (rule forward_trans)
    qed
  qed
next
  case (Group n r)
  then show ?case by (simp add: ends_Group)
next
  case WordB
  then show ?case by (auto simp: ends_def rmatch.simps forward_refl split: if_splits)
next
  case Bol
  then show ?case by (auto simp: ends_Bol forward_refl split: if_splits)
qed

lemma lazy_dot_traverses:
  "10 \<notin> set ys \<Longrightarrow>
   (if ys = [] then prev else Some (last ys), rest)
     \<in> ends False (Lazy (Atom CDot)) (prev, ys @ rest)"
proof (induction ys arbitrary: prev)
  case Nil
  show ?case by (subst ends_Lazy) simp
next
  case (Cons y ys)
  from Cons.prems have a: "(Some y, ys @ rest) \<in> ends False (Atom CDot) (prev, (y # ys) @ rest)"
    by (simp add: ends_Atom)
  from Cons.prems have "10 \<notin> set ys" by simp
  from Cons.IH [OF this, of "Some y"]
  have b: "(if y # ys = [] then prev else Some (last (y # ys)), rest)
     \<in> ends False (Lazy (Atom CDot)) (Some y, ys @ rest)"
    by (cases "ys = []") simp_all
  have c: "length (snd (Some y, ys @ rest)) < length (snd (prev, (y # ys) @ rest))" by simp
  show ?case by (subst ends_Lazy) (use a b c in blast)
qed

lemma lazy_dot_forward:
  assumes "forward p q" and "10 \<notin> set (snd p)"
  shows "q \<in> ends False (Lazy (Atom CDot)) p"
proof -
  from assms(1) obtain ys where ys: "snd p = ys @ snd q"
    "fst q = (if ys = [] then fst p else Some (last ys))"
    by (auto simp: forward_def)
  with assms(2) have "10 \<notin> set ys" by simp
  from lazy_dot_traverses [OF this, of "fst p" "snd q"] ys show ?thesis
    by (cases p; cases q) simp
qed


text \<open>
  On a line without a newline, wherever the three-level pattern matches, the two-level
  pattern matches as well: its class of dots and spaces takes the second dot and its
  lazy title takes the third number. The two-level pattern is tried first, so no row
  of the manual outline has level 3.
\<close>

lemma literal_in_class:
  "q \<in> ends False (Atom (CChar c)) p \<Longrightarrow> in_cset s c \<Longrightarrow> q \<in> ends False (Atom s) p"
  by (cases p; cases "snd p") (auto simp: ends_Atom split: if_splits)

lemma ends_Star_self: "p \<in> ends ic (Star r) p"
  by (subst ends_Star) simp

lemma subsection_ends_section:
  assumes "10 \<notin> set line" and "q \<in> ends False subsection_pattern (None, line)"
  shows "q \<in> ends False section_pattern (None, line)"
proof -
  let ?D = "one_or_more (Atom CDigit)"
  let ?dot = "Atom (CChar 46)"
  let ?cls = "Atom (COr (CChar 46) CSpace)"
  let ?p0 = "(None, line) :: pos"
  from assms(2) obtain p1 p2 p3 p4 p5 p6 p7 p8 p9 p10 where c:
    "p1 \<in> ends False ?D ?p0" "p2 \<in> ends False ?dot p1" "p3 \<in> ends False ?D p2"
    "p4 \<in> ends False ?dot p3" "p5 \<in> ends False ?D p4"
    "p6 \<in> ends False (one_or_more ?cls) p5" "p7 \<in> ends False (Lazy (Atom CDot)) p6"
    and tl: "p8 \<in> ends False (one_or_more (Atom CSpace)) p7"
    "p9 \<in> ends False (two_or_more (Atom (CChar 46))) p8"
    "p10 \<in> ends False (Star (Atom CSpace)) p9" "q \<in> ends False ?D p10"
    by (auto simp: subsection_pattern_def dots_page_def ends_Seq ends_Group ends_Bol
        simp del: ends_Atom split: if_splits)
  have "forward ?p0 p4"
    using c(1-4) by (blast intro: ends_forward forward_trans)
  from forward_suffix [OF this] assms(1) have n: "10 \<notin> set (snd p4)" by auto
  have "forward p4 p7"
    using c(5-7) by (blast intro: ends_forward forward_trans)
  from lazy_dot_forward [OF this n] have l: "p7 \<in> ends False (Lazy (Atom CDot)) p4" .
  from literal_in_class [OF c(4), of "COr (CChar 46) CSpace"]
  have "p4 \<in> ends False ?cls p3" by simp
  then have k: "p4 \<in> ends False (one_or_more ?cls) p3"
    using ends_Star_self [of p4 False ?cls] by (auto simp: one_or_more_def ends_Seq)
  from c(1-3) k l tl show ?thesis
    by (simp add: section_pattern_def dots_page_def ends_Seq ends_Group ends_Bol) blast
qed

lemma re_match_None_ends: "re_match ic r s = None \<longleftrightarrow> ends ic r (None, s) = {}"
  by (simp add: re_match_def ends_def split: list.splits)

lemma subsection_needs_section:
  assumes "10 \<notin> set line" and "re_match False section_pattern line = None"
  shows "re_match False subsection_pattern line = None"
  using assms subsection_ends_section [of line]
  by (auto simp: re_match_None_ends)

lemma toc_line_levels:
  assumes "10 \<notin> set line" and "toc_line line = Inr rows" and "row \<in> set rows"
  shows "fst row = 1 \<or> fst row = 2"
proof (cases "re_match False section_pattern line")
  case None
  with subsection_needs_section [OF assms(1)]
  have "re_match False subsection_pattern line = None" by simp
  with None assms(2,3) show ?thesis
    by (auto simp: toc_line_def split: option.splits sum.splits)
next
  case (Some m)
  with assms(2,3) show ?thesis
    by (auto simp: toc_line_def split: option.splits sum.splits)
qed

lemma split_char_no_separator: "l \<in> set (split_char c s) \<Longrightarrow> c \<notin> set l"
proof (induction s arbitrary: l)
  case Nil
  then show ?case by simp
next
  case (Cons x xs)
  then show ?case
    by (cases "split_char c xs") (auto split: if_splits)
qed

lemma toc_lines_levels:
  assumes "toc_lines ls acc = Inr rows" and "\<forall>l \<in> set ls. 10 \<notin> set l"
    and "\<forall>row \<in> set acc. fst row = 1 \<or> fst row = 2"
  shows "\<forall>row \<in> set rows. fst row = 1 \<or> fst row = 2"
  using assms
proof (induction ls arbitrary: acc)
  case Nil
  then show ?case by simp
next
  case (Cons l ls)
  from Cons.prems(1) obtain new where n: "toc_line l = Inr new"
    and r: "toc_lines ls (acc @ new) = Inr rows"
    by (auto split: sum.splits)
  from Cons.prems(2) have "10 \<notin> set l" by simp
  from toc_line_levels [OF this n] Cons.prems(3)
  have "\<forall>row \<in> set (acc @ new). fst row = 1 \<or> fst row = 2" by auto
  with Cons.IH [OF r] Cons.prems(2) show ?case by simp
qed

lemma toc_pages_levels:
  assumes "toc_pages d ns acc = Inr rows" and "\<forall>row \<in> set acc. fst row = 1 \<or> fst row = 2"
  shows "\<forall>row \<in> set rows. fst row = 1 \<or> fst row = 2"
  using assms
proof (induction ns arbitrary: acc)
  case Nil
  then show ?case by simp
next
  case (Cons n ns)
  from Cons.prems(1) obtain text0 acc' where t: "page_text d (int n) = Inr text0"
    and l: "toc_lines (split_char 10 text0) acc = Inr acc'"
    and r: "toc_pages d ns acc' = Inr rows"
    by (auto split: sum.splits)
  have "\<forall>l \<in> set (split_char 10 text0). 10 \<notin> set l"
    using split_char_no_separator by blast
  from toc_lines_levels [OF l this Cons.prems(2)]
  have "\<forall>row \<in> set acc'. fst row = 1 \<or> fst row = 2" .
  from Cons.IH [OF r this] show ?case .
qed

lemma manual_toc_levels:
  "extract_toc_manually d = Inr rows \<Longrightarrow> \<forall>row \<in> set rows. fst row = 1 \<or> fst row = 2"
  using toc_pages_levels [of d "[0 ..< min 10 (page_count d)]" "[]" rows]
  by (simp add: extract_toc_manually_def)

text \<open>
  C3: the line "1.2.3 Title .... 5" has the three-level shape and matches the three-level
  pattern, but one row is appended for it with level 2 and the title "1.2 3 Title",
  because the two-level pattern matches it too and is tried first. This holds for every
  document: each row of the manual outline has level 1 or 2, never 3.
\<close>

theorem three_level_line_gets_level_2:
  "toc_line three_level_line = Inr [(2, u ''1.2 3 Title'', 5)]
   \<and> re_match False subsection_pattern three_level_line \<noteq> None
   \<and> (\<forall>d rows. extract_toc_manually d = Inr rows \<longrightarrow>
        (\<forall>row \<in> set rows. fst row = 1 \<or> fst row = 2))"
proof (intro conjI allI impI)
  show "toc_line three_level_line = Inr [(2, u ''1.2 3 Title'', 5)]"
    by (rule toc_line_three_level)
next
  show "re_match False subsection_pattern three_level_line \<noteq> None"
    by (simp add: three_level_line_def subsection_pattern_def dots_page_def re_eval u_def)
next
  fix d rows
  assume "extract_toc_manually d = Inr rows"
  then show "\<forall>row \<in> set rows. fst row = 1 \<or> fst row = 2"
    by (rule manual_toc_levels)
qed

theorem three_level_line_gets_level_2_witness:
  "extract_toc_manually contents_page_document = Inr [(2, u ''1.2 3 Title'', 5)]
   \<and> (fst (2 :: int, u ''1.2 3 Title'', 5 :: int) = 1
        \<or> fst (2 :: int, u ''1.2 3 Title'', 5 :: int) = 2)"
proof -
  have l: "split_char 10 three_level_line = [three_level_line]"
    by (simp add: three_level_line_def u_def)
  have t: "toc_line three_level_line = Inr [(2, u ''1.2 3 Title'', 5)]"
    using three_level_line_gets_level_2 by blast
  have e: "extract_toc_manually contents_page_document = Inr [(2, u ''1.2 3 Title'', 5)]"
    by (simp add: extract_toc_manually_def contents_page_document_def l t)
  from three_level_line_gets_level_2 e
  have "\<forall>row \<in> set [(2 :: int, u ''1.2 3 Title'', 5 :: int)]. fst row = 1 \<or> fst row = 2"
    by blast
  with e show ?thesis by simp
qed

section \<open>Concept extraction\<close>

lemma lower_massiv_text:
  "lower massiv_text =
     [1084, 1072, 1089, 1089, 1080, 1074, 32, 1080, 1084, 1077, 1077, 1090, 32, 1089, 1083,
      1086, 1078, 1085, 1086, 1089, 1090, 1100, 32, 111, 40, 110, 41, 32, 1087, 1088, 1080,
      32, 1087, 1086, 1080, 1089, 1082, 1077]"
  by (simp add: massiv_text_def lower_def lower_cp_def)

lemma concept_matches_massiv:
  "concept_matches massiv_text = [word_slozhnost, word_massiv, word_poiske]"
  by (simp add: concept_matches_def lower_massiv_text concept_patterns_def word_pat_def
      big_o_pattern_def one_of_def cyr_small_def re_scan_end re_scan_skip re_scan_match rmatch.simps
      one_or_more_def is_word_def remaining_def consumed_def re_findall_def group_def
      at_boundary_def word_slozhnost_def word_massiv_def word_poiske_def)

text \<open>
  A lower-cased text has no capital Latin O, so the pattern for the asymptotic notation
  finds nothing in any chunk.
\<close>

lemma lower_no_capital_O: "79 \<notin> set (lower t)"
  by (auto simp: lower_def lower_cp_def)

lemma big_o_no_match:
  "79 \<notin> set (snd p) \<Longrightarrow> rmatch False (Group 0 big_o_pattern) (p, caps) = []"
  by (cases "snd p") (auto simp: big_o_pattern_def rmatch.simps(2,3,6,7))

lemma big_o_scan:
  "79 \<notin> set rest \<Longrightarrow> re_scan False big_o_pattern ma (prev, rest) = map Skipped rest"
proof (induction rest arbitrary: ma prev)
  case Nil
  then show ?case
    by (subst re_scan.simps) (simp add: big_o_no_match)
next
  case (Cons x xs)
  then show ?case
    by (subst re_scan.simps) (simp add: big_o_no_match)
qed

lemma big_o_finds_nothing: "re_findall False big_o_pattern (lower t) = []"
  by (simp add: re_findall_def big_o_scan lower_no_capital_O)

lemma extract_concepts_all:
  assumes "set_order_ok set_order" and "card (set (concept_matches t)) \<le> 10"
  shows "set (extract_concepts set_order t) = set (concept_matches t)"
proof -
  let ?xs = "set_order (concept_matches t)"
  from assms(1) have d: "distinct ?xs" and e: "set ?xs = set (concept_matches t)"
    by (simp_all add: set_order_ok_def)
  from d have "length ?xs = card (set ?xs)" by (simp add: distinct_card)
  with e assms(2) have "length ?xs \<le> 10" by simp
  then show ?thesis using e by (simp add: extract_concepts_def)
qed

lemma set_order_ok_remdups: "set_order_ok remdups"
  by (simp add: set_order_ok_def)

lemma big_o_in_written_text: "re_findall False big_o_pattern massiv_text = [u ''O(n)'']"
  by (simp add: massiv_text_def big_o_pattern_def re_eval u_def)

lemma big_o_ignoring_case: "re_findall True big_o_pattern (lower massiv_text) = [u ''o(n)'']"
  by (simp add: lower_massiv_text big_o_pattern_def re_scan_end re_scan_skip re_scan_match
      rmatch.simps one_or_more_def is_word_def remaining_def consumed_def re_findall_def
      group_def at_boundary_def lower_cp_def u_def)

text \<open>
  C2: the pattern for the asymptotic notation is written with a capital O and compiled
  without \<^verbatim>\<open>re.IGNORECASE\<close>, and it is matched against the lower-cased text, so for
  every chunk text it finds nothing. On the example text it would find "O(n)" in the
  text as written, and "o(n)" in the lower-cased text if case were ignored. The concepts
  returned for the example text are, for every iteration order of the set, the three
  whole words "massiv", "slozhnost'" and "poiske" that the patterns of the stems match:
  "o(n)" is not among them, and neither are the bare stems "slozhnost" and "poisk".
\<close>

theorem big_o_never_found:
  "re_findall False big_o_pattern (lower t) = []
   \<and> re_findall False big_o_pattern massiv_text = [u ''O(n)'']
   \<and> re_findall True big_o_pattern (lower massiv_text) = [u ''o(n)'']
   \<and> (set_order_ok set_order \<longrightarrow>
        set (extract_concepts set_order massiv_text)
          = {word_massiv, word_slozhnost, word_poiske}
        \<and> u ''o(n)'' \<notin> set (extract_concepts set_order massiv_text)
        \<and> stem_slozhnost \<notin> set (extract_concepts set_order massiv_text)
        \<and> stem_poisk \<notin> set (extract_concepts set_order massiv_text))"
proof (intro conjI impI)
  show "re_findall False big_o_pattern (lower t) = []"
    by (rule big_o_finds_nothing)
next
  show "re_findall False big_o_pattern massiv_text = [u ''O(n)'']"
    by (rule big_o_in_written_text)
next
  show "re_findall True big_o_pattern (lower massiv_text) = [u ''o(n)'']"
    by (rule big_o_ignoring_case)
next
  assume ok: "set_order_ok set_order"
  have "card (set (concept_matches massiv_text)) \<le> 10"
    using card_length [of "concept_matches massiv_text"]
    by (simp add: concept_matches_massiv)
  from extract_concepts_all [OF ok this]
  have e: "set (extract_concepts set_order massiv_text)
      = {word_massiv, word_slozhnost, word_poiske}"
    by (auto simp: concept_matches_massiv)
  then show "set (extract_concepts set_order massiv_text)
      = {word_massiv, word_slozhnost, word_poiske}" .
  from e show "u ''o(n)'' \<notin> set (extract_concepts set_order massiv_text)"
    by (simp add: word_massiv_def word_slozhnost_def word_poiske_def u_def)
  from e show "stem_slozhnost \<notin> set (extract_concepts set_order massiv_text)"
    by (simp add: word_massiv_def word_slozhnost_def word_poiske_def stem_slozhnost_def)
  from e show "stem_poisk \<notin> set (extract_concepts set_order massiv_text)"
    by (simp add: word_massiv_def word_slozhnost_def word_poiske_def stem_poisk_def)
qed

theorem big_o_never_found_witness:
  "set_order_ok remdups
   \<and> set (extract_concepts remdups massiv_text) = {word_massiv, word_slozhnost, word_poiske}
   \<and> u ''o(n)'' \<notin> set (extract_concepts remdups massiv_text)
   \<and> stem_slozhnost \<notin> set (extract_concepts remdups massiv_text)
   \<and> stem_poisk \<notin> set (extract_concepts remdups massiv_text)"
  using big_o_never_found [of massiv_text remdups] set_order_ok_remdups by blast

section \<open>Chunk metadata\<close>

lemma split_section_hierarchy:
  assumes "d \<in> set (split_section split_text set_order section_data parent_hierarchy)"
  shows "map_of (metadata d) ''hierarchy''
         = Some (MStr (join (u '' > '')
             ((case parent_hierarchy of None \<Rightarrow> [] | Some h \<Rightarrow> h) @ [title section_data])))"
  using assms
  by (auto simp: split_section_def chunk_document_def Let_def split: if_splits)

text \<open>
  C7 (amended): for every chunk made from a section with the ancestor chain
  \<open>ancestorChain\<close>, the metadata field \<open>hierarchy\<close> is the string that joins the titles
  of \<open>ancestorChain\<close> and the title of the section with " > ".
\<close>

theorem hierarchy_field_is_joined_titles:
  "\<forall>d \<in> set (split_section split_text set_order section_data (Some ancestorChain)).
     map_of (metadata d) ''hierarchy''
       = Some (MStr (join (u '' > '') (ancestorChain @ [title section_data])))"
  using split_section_hierarchy [of _ split_text set_order section_data "Some ancestorChain"]
  by simp

theorem hierarchy_field_is_joined_titles_witness:
  "hd (split_section whole_text_splitter remdups sample_section (Some [lecture1]))
     \<in> set (split_section whole_text_splitter remdups sample_section (Some [lecture1]))
   \<and> map_of (metadata (hd (split_section whole_text_splitter remdups sample_section
       (Some [lecture1])))) ''hierarchy''
     = Some (MStr (lecture1 @ u '' > 1.1''))"
proof -
  have m: "hd (split_section whole_text_splitter remdups sample_section (Some [lecture1]))
     \<in> set (split_section whole_text_splitter remdups sample_section (Some [lecture1]))"
    by (simp add: split_section_def sample_section_def whole_text_splitter_def u_def)
  from hierarchy_field_is_joined_titles [of whole_text_splitter remdups sample_section
      "[lecture1]", rule_format, OF m]
  show ?thesis using m by (simp add: sample_section_def u_def)
qed


text \<open>
  The field holds the joined string, not the list of titles: for the section "1.1" under
  "Lekciya 1" it is the text "Lekciya 1 > 1.1".
\<close>

theorem hierarchy_field_counterexample:
  "map_of (metadata (hd (split_section whole_text_splitter remdups sample_section
       (Some [lecture1])))) ''hierarchy''
     = Some (MStr (lecture1 @ u '' > 1.1''))
   \<and> map_of (metadata (hd (split_section whole_text_splitter remdups sample_section
       (Some [lecture1])))) ''hierarchy''
     \<noteq> Some (MList ([lecture1] @ [title sample_section]))"
  by (simp add: split_section_def sample_section_def whole_text_splitter_def
      chunk_document_def u_def)

section \<open>The ingestion run\<close>

lemma documents_loop_total:
  "\<forall>i \<in> set is. i < length secs \<Longrightarrow>
   \<exists>docs. documents_loop split_text set_order secs is = Inr docs"
proof (induction "is")
  case Nil
  then show ?case by simp
next
  case (Cons i rest)
  then obtain docs where "documents_loop split_text set_order secs rest = Inr docs" by auto
  moreover from Cons.prems have "\<exists>h. build_hierarchy secs (int i) = Inr h"
    by (simp add: build_hierarchy_def py_index_def)
  ultimately show ?case by auto
qed

lemma clean_text_x: "clean_text (u ''x'') = u ''x''"
  by (simp add: clean_text_def re_eval whitespace_run_def page_number_line_def
      blank_lines_def strip_def u_def)

lemma u_x_nonempty: "u ''x'' \<noteq> []"
  by (simp add: u_def)

lemma failed_clear_warns:
  "delete_collection env vs = Inl e \<Longrightarrow> clear_collection env vs True = (vs, [Warning e])"
  by (simp add: clear_collection_def)

lemma no_clear: "clear_collection env vs False = (vs, [])"
  by (simp add: clear_collection_def)

text \<open>
  C4 (amended): when \<open>clear_existing\<close> is set and deleting the collection fails, the run
  is the run without clearing, on the store the populator already had, with the failure
  logged as a warning before everything else: it raises what that run raises and returns
  what that run returns. In particular, when the document is opened, the outline and the
  sections are extracted, the chunks are made and that store accepts the batch written
  to it, the run reports the status "success".
\<close>

theorem failed_clear_keeps_store:
  assumes "delete_collection env vs = Inl e"
  shows "populate env split_text set_order vs True
           = map_sum id (\<lambda>(res, vs', logged). (res, vs', Warning e # logged))
               (populate env split_text set_order vs False)
       \<and> (\<forall>d toc_list p1 sections p2 docs ids.
             open_pdf env = Inr d
             \<and> extract_toc \<lparr>doc = d, toc = []\<rparr> = Inr (toc_list, p1)
             \<and> extract_content_by_toc p1 = Inr (sections, p2)
             \<and> documents_loop split_text set_order sections [0 ..< length sections] = Inr docs
             \<and> add_documents env vs (filter_complex_metadata docs) = Inr ids
           \<longrightarrow> populate env split_text set_order vs True
               = Inr (\<lparr>status = ''success'', failure = None,
                       total_sections = length sections,
                       total_documents = length (filter_complex_metadata docs),
                       document_ids = Some ids\<rparr>, vs, [Warning e]))"
proof (intro conjI allI impI)
  show "populate env split_text set_order vs True
           = map_sum id (\<lambda>(res, vs', logged). (res, vs', Warning e # logged))
               (populate env split_text set_order vs False)"
    by (simp add: populate_def failed_clear_warns [OF assms] no_clear Let_def
        split: sum.splits prod.splits)
next
  fix d toc_list p1 sections p2 docs ids
  assume "open_pdf env = Inr d
             \<and> extract_toc \<lparr>doc = d, toc = []\<rparr> = Inr (toc_list, p1)
             \<and> extract_content_by_toc p1 = Inr (sections, p2)
             \<and> documents_loop split_text set_order sections [0 ..< length sections] = Inr docs
             \<and> add_documents env vs (filter_complex_metadata docs) = Inr ids"
  then show "populate env split_text set_order vs True
               = Inr (\<lparr>status = ''success'', failure = None,
                       total_sections = length sections,
                       total_documents = length (filter_complex_metadata docs),
                       document_ids = Some ids\<rparr>, vs, [Warning e])"
    by (simp add: populate_def failed_clear_warns [OF assms] Let_def)
qed

theorem failed_clear_keeps_store_witness:
  "delete_collection failing_clear_env 0 = Inl SinkError
   \<and> open_pdf failing_clear_env = Inr one_page_document
   \<and> populate failing_clear_env whole_text_splitter remdups 0 True
       = Inr (\<lparr>status = ''success'', failure = None, total_sections = 1,
               total_documents = 1, document_ids = Some [u ''x'']\<rparr>, 0, [Warning SinkError])"
proof -
  let ?p1 = "\<lparr>doc = one_page_document, toc = [(1, u ''A'', 1)]\<rparr>"
  let ?s = "\<lparr>level = 1, title = u ''A'', start_page = 1, end_page = 1, content = u ''x'',
             stype = ''lecture''\<rparr>"
  have h1: "delete_collection failing_clear_env 0 = Inl SinkError"
    and h2: "open_pdf failing_clear_env = Inr one_page_document"
    by (simp_all add: failing_clear_env_def)
  have h3: "extract_toc \<lparr>doc = one_page_document, toc = []\<rparr>
      = Inr (map structured_row [(1, u ''A'', 1)], ?p1)"
    by (simp add: extract_toc_def one_page_document_def)
  have "strip (u ''A'') = u ''A''"
    by (simp add: strip_def is_space_def u_def)
  then have h4: "extract_content_by_toc ?p1 = Inr ([?s], ?p1)"
    by (simp add: extract_content_by_toc_def one_page_document_def find_end_page_def
        extract_text_from_pages_def clean_text_x classify_heading_def Let_def)
  obtain docs where h5: "documents_loop whole_text_splitter remdups [?s] [0 ..< length [?s]]
      = Inr docs" and c: "map page_content docs = [u ''x'']"
    using u_x_nonempty
    by (simp add: build_hierarchy_def py_index_def split_section_def whole_text_splitter_def
        chunk_document_def)
  from c have n: "length docs = 1"
    using length_map [of page_content docs] by simp
  from c have h6: "add_documents failing_clear_env 0 (filter_complex_metadata docs)
      = Inr [u ''x'']"
    by (simp add: add_documents_def failing_clear_env_def filter_complex_metadata_def
        comp_def)
  from failed_clear_keeps_store [OF h1, of whole_text_splitter remdups, THEN conjunct2,
      rule_format, of one_page_document _ ?p1 "[?s]" ?p1 docs "[u ''x'']"] h2 h3 h4 h5 h6
  have "populate failing_clear_env whole_text_splitter remdups 0 True
       = Inr (\<lparr>status = ''success'', failure = None, total_sections = length [?s],
               total_documents = length (filter_complex_metadata docs),
               document_ids = Some [u ''x'']\<rparr>, 0, [Warning SinkError])"
    by simp
  with n h1 h2 show ?thesis by (simp add: filter_complex_metadata_def)
qed

text \<open>
  After the failed deletion no new manager is created: the batch is written to the store
  0 the populator started with, and the store 1 that a new manager would be is not used
  (it would have refused the batch).
\<close>

theorem reinitialized_sink_counterexample:
  "populate failing_clear_env whole_text_splitter remdups 0 True
     = Inr (\<lparr>status = ''success'', failure = None, total_sections = 1, total_documents = 1,
             document_ids = Some [u ''x'']\<rparr>, 0, [Warning SinkError])
   \<and> new_manager failing_clear_env = Inr 1
   \<and> add_documents failing_clear_env 1 [] = Inl SinkError"
  using u_x_nonempty
  by (simp add: populate_def clear_collection_def failing_clear_env_def one_page_document_def
      extract_toc_def extract_content_by_toc_def find_end_page_def
      extract_text_from_pages_def clean_text_x build_hierarchy_def py_index_def
      split_section_def whole_text_splitter_def chunk_document_def
      filter_complex_metadata_def add_documents_def clean_metadata_def Let_def strip_def
      is_space_def)


end
